theory Spec2Isabelle
  imports Complex_Main "HOL-Library.AList" "HOL-Library.Sublist" "HOL-Library.Multiset"
begin

section \<open>Common: JavaScript errors as values\<close>

text \<open>
  A thrown exception (or a rejected promise of an \<open>async\<close> function) is the left summand
  of a result \<open>js_error + 'a\<close>; a \<open>try { ... } catch { ... }\<close> block is \<open>try_catch\<close>.
\<close>

datatype js_error = SecurityError | QuotaExceededError | SyntaxError | TypeError | Error string

definition try_catch :: "js_error + 'a \<Rightarrow> (js_error \<Rightarrow> js_error + 'a) \<Rightarrow> js_error + 'a" where
  "try_catch body handler = (case body of Inl e \<Rightarrow> handler e | Inr r \<Rightarrow> Inr r)"

section \<open>Result cache: \<open>LocalStorageCacheService\<close> (src/unnamed/part\_005)\<close>

text \<open>
  The text stored under a key of \<open>localStorage\<close>, classified by what \<open>JSON.parse\<close> and the
  property reads of \<open>get\<close> do with it. \<open>Encoded v e\<close> is the text that
  \<open>JSON.stringify({ value: v, expiresAt: e })\<close> writes (an \<open>undefined\<close> expiry is dropped by
  \<open>JSON.stringify\<close> and reads back as \<open>undefined\<close>: \<open>None\<close>); values of type \<open>'v\<close> are the
  ones that survive the JSON round trip.
\<close>

datatype 'v raw_item =
    EmptyText         \<comment> \<open>the empty string: falsy\<close>
  | Malformed         \<comment> \<open>not JSON: \<open>JSON.parse\<close> throws\<close>
  | JsonNull          \<comment> \<open>the text \<open>null\<close>\<close>
  | JsonOther         \<comment> \<open>JSON without the fields \<open>value\<close> and \<open>expiresAt\<close>\<close>
  | Encoded 'v "int option"

datatype 'v parsed = ParsedNull | ParsedOther | ParsedPayload 'v "int option"

text \<open>The argument \<open>value\<close> of \<open>set\<close>: \<open>JSON.stringify\<close> throws on a circular structure.\<close>

datatype 'v js_value = Plain 'v | Circular

text \<open>What \<open>get\<close> resolves to: \<open>null\<close>, \<open>undefined\<close> (a payload without \<open>value\<close>) or a value.\<close>

datatype 'v got = Null | Undefined | Value 'v

text \<open>
  \<open>localStorage\<close>: its items in key order, whether touching it throws (storage disabled),
  and whether a write still fits the quota.
\<close>

record 'v local_storage =
  items :: "(string \<times> 'v raw_item) list"
  accessible :: bool
  has_quota :: bool

definition getItem :: "'v local_storage \<Rightarrow> string \<Rightarrow> js_error + 'v raw_item option" where
  "getItem s key = (if accessible s then Inr (map_of (items s) key) else Inl SecurityError)"

definition setItem :: "'v local_storage \<Rightarrow> string \<Rightarrow> 'v raw_item \<Rightarrow> js_error + 'v local_storage" where
  "setItem s key raw =
     (if \<not> accessible s then Inl SecurityError
      else if \<not> has_quota s then Inl QuotaExceededError
      else Inr (s\<lparr>items := AList.update key raw (items s)\<rparr>))"

definition removeItem :: "'v local_storage \<Rightarrow> string \<Rightarrow> js_error + 'v local_storage" where
  "removeItem s key =
     (if accessible s then Inr (s\<lparr>items := AList.delete key (items s)\<rparr>) else Inl SecurityError)"

fun JSON_parse :: "'v raw_item \<Rightarrow> js_error + 'v parsed" where
  "JSON_parse EmptyText = Inl SyntaxError"
| "JSON_parse Malformed = Inl SyntaxError"
| "JSON_parse JsonNull = Inr ParsedNull"
| "JSON_parse JsonOther = Inr ParsedOther"
| "JSON_parse (Encoded v e) = Inr (ParsedPayload v e)"

fun JSON_stringify :: "'v js_value \<Rightarrow> int option \<Rightarrow> js_error + 'v raw_item" where
  "JSON_stringify (Plain v) e = Inr (Encoded v e)"
| "JSON_stringify Circular e = Inl TypeError"

text \<open>Truthiness of an optional number: \<open>undefined\<close> and \<open>0\<close> are falsy.\<close>

fun truthy_num :: "int option \<Rightarrow> bool" where
  "truthy_num None = False"
| "truthy_num (Some n) = (n \<noteq> 0)"

text \<open>The body of the \<open>try\<close> block of \<open>get\<close>; \<open>now\<close> is \<open>Date.now()\<close>.\<close>

definition cache_get_try ::
  "int \<Rightarrow> 'v local_storage \<Rightarrow> string \<Rightarrow> js_error + ('v got \<times> 'v local_storage)" where
  "cache_get_try now s key =
     (case getItem s key of
        Inl e \<Rightarrow> Inl e
      | Inr None \<Rightarrow> Inr (Null, s)
      | Inr (Some EmptyText) \<Rightarrow> Inr (Null, s)
      | Inr (Some raw) \<Rightarrow>
          (case JSON_parse raw of
             Inl e \<Rightarrow> Inl e
           | Inr ParsedNull \<Rightarrow> Inl TypeError
           | Inr ParsedOther \<Rightarrow> Inr (Undefined, s)
           | Inr (ParsedPayload v expiresAt) \<Rightarrow>
               if truthy_num expiresAt \<and> now > the expiresAt
               then (case removeItem s key of
                       Inl e \<Rightarrow> Inl e
                     | Inr s' \<Rightarrow> Inr (Null, s'))
               else Inr (Value v, s)))"

definition cache_get ::
  "int \<Rightarrow> 'v local_storage \<Rightarrow> string \<Rightarrow> js_error + ('v got \<times> 'v local_storage)" where
  "cache_get now s key = try_catch (cache_get_try now s key) (\<lambda>err. Inr (Null, s))"

definition cache_set_try ::
  "int \<Rightarrow> 'v local_storage \<Rightarrow> string \<Rightarrow> 'v js_value \<Rightarrow> int option \<Rightarrow> js_error + 'v local_storage" where
  "cache_set_try now s key val ttlMs =
     (let expiresAt = (if truthy_num ttlMs then Some (now + the ttlMs) else None) in
      case JSON_stringify val expiresAt of
        Inl e \<Rightarrow> Inl e
      | Inr text \<Rightarrow> setItem s key text)"

definition cache_set ::
  "int \<Rightarrow> 'v local_storage \<Rightarrow> string \<Rightarrow> 'v js_value \<Rightarrow> int option \<Rightarrow> js_error + 'v local_storage" where
  "cache_set now s key val ttlMs = try_catch (cache_set_try now s key val ttlMs) (\<lambda>err. Inr s)"

definition cache_delete :: "'v local_storage \<Rightarrow> string \<Rightarrow> js_error + 'v local_storage" where
  "cache_delete s key = try_catch (removeItem s key) (\<lambda>err. Inr s)"

definition own_key :: "string \<Rightarrow> bool" where
  "own_key k \<longleftrightarrow> prefix ''amzwp_'' k \<or> prefix ''ai:'' k \<or> prefix ''analysis:'' k \<or> prefix ''wp:'' k"

text \<open>\<open>Object.keys(localStorage)\<close> throws when the storage cannot be touched.\<close>

definition Object_keys :: "'v local_storage \<Rightarrow> js_error + string list" where
  "Object_keys s = (if accessible s then Inr (map fst (items s)) else Inl SecurityError)"

fun forEach_removeItem :: "string list \<Rightarrow> 'v local_storage \<Rightarrow> js_error + 'v local_storage" where
  "forEach_removeItem [] s = Inr s"
| "forEach_removeItem (k # ks) s =
     (case removeItem s k of Inl e \<Rightarrow> Inl e | Inr s' \<Rightarrow> forEach_removeItem ks s')"

definition cache_clear_try :: "'v local_storage \<Rightarrow> js_error + 'v local_storage" where
  "cache_clear_try s =
     (case Object_keys s of
        Inl e \<Rightarrow> Inl e
      | Inr ks \<Rightarrow> forEach_removeItem (filter own_key ks) s)"

text \<open>
  A throw inside \<open>forEach\<close> leaves the removals made so far in place; the model's storage
  fails as a whole or not at all, so the handler sees the storage it started with.
\<close>

definition cache_clear :: "'v local_storage \<Rightarrow> js_error + 'v local_storage" where
  "cache_clear s = try_catch (cache_clear_try s) (\<lambda>err. Inr s)"

section \<open>Request deduplicator: \<open>deduplicateRequest\<close> (src/lib/request-dedup.ts)\<close>

text \<open>
  JavaScript runs one callback at a time, so the module is a state machine over two kinds
  of events: a call of \<open>deduplicateRequest\<close>, and the settling of a promise that a factory
  returned. A promise is its index in \<open>promises\<close>, the list of all promises the factories have
  returned so far, each with the key its \<open>finally\<close> callback captured; the promise that
  \<open>.finally(...)\<close> derives settles as the factory's promise does (the callback does not
  throw), so both are one index. \<open>pending\<close> is the module's \<open>Map\<close>. A factory is an
  \<open>async\<close> operation: calling it starts the operation and yields a promise in flight, and
  it does not call \<open>deduplicateRequest\<close> itself before it returns.
\<close>

datatype 'r settlement = Fulfilled 'r | Rejected js_error

datatype 'r promise_state = InFlight | Settled "'r settlement"

record 'r dedup =
  pending :: "(string \<times> nat) list"
  promises :: "(string \<times> 'r promise_state) list"

text \<open>\<open>factory()\<close>: one more invocation of the underlying operation.\<close>

definition factory_call :: "string \<Rightarrow> 'r dedup \<Rightarrow> nat \<times> 'r dedup" where
  "factory_call key st =
     (length (promises st), st\<lparr>promises := promises st @ [(key, InFlight)]\<rparr>)"

definition deduplicateRequest :: "string \<Rightarrow> 'r dedup \<Rightarrow> nat \<times> 'r dedup" where
  "deduplicateRequest key st =
     (case map_of (pending st) key of
        Some existing \<Rightarrow> (existing, st)
      | None \<Rightarrow>
          (case factory_call key st of
             (promise, st1) \<Rightarrow>
               (promise, st1\<lparr>pending := AList.update key promise (pending st1)\<rparr>)))"

text \<open>
  Promise \<open>p\<close> settles with \<open>r\<close> and its \<open>finally\<close> callback runs \<open>pending.delete(key)\<close>.
  A promise settles once.
\<close>

definition settle :: "nat \<Rightarrow> 'r settlement \<Rightarrow> 'r dedup \<Rightarrow> 'r dedup" where
  "settle p r st =
     (if p < length (promises st) \<and> snd (promises st ! p) = InFlight
      then st\<lparr>promises := (promises st)[p := (fst (promises st ! p), Settled r)],
              pending := AList.delete (fst (promises st ! p)) (pending st)\<rparr>
      else st)"

datatype 'r event = Call string | Settle nat "'r settlement"

fun step :: "'r event \<Rightarrow> 'r dedup \<Rightarrow> 'r dedup" where
  "step (Call key) st = snd (deduplicateRequest key st)"
| "step (Settle p r) st = settle p r st"

definition run :: "'r event list \<Rightarrow> 'r dedup \<Rightarrow> 'r dedup" where
  "run evs st = fold step evs st"

definition initial :: "'r dedup" where
  "initial = \<lparr>pending = [], promises = []\<rparr>"

text \<open>Promise \<open>p\<close> was returned by a factory called for \<open>key\<close> and has not settled.\<close>

definition in_flight :: "'r dedup \<Rightarrow> string \<Rightarrow> nat \<Rightarrow> bool" where
  "in_flight st key p \<longleftrightarrow> p < length (promises st) \<and> promises st ! p = (key, InFlight)"

text \<open>The map holds exactly the promises in flight, each under its key.\<close>

definition pending_exact :: "'r dedup \<Rightarrow> bool" where
  "pending_exact st \<longleftrightarrow> (\<forall>k p. map_of (pending st) k = Some p \<longleftrightarrow> in_flight st k p)"

section \<open>Product records and JSON values\<close>

text \<open>
  \<open>ProductDetails\<close> is declared in \<open>types.ts\<close>, which is not among the sources; the
  record has the fields that the functions below read, optional where the code guards the
  read (\<open>product.brand?.\<close>, \<open>?? Infinity\<close>, \<open>|| ''\<close>, \<open>|| []\<close>). A paragraph index is a
  whole number; a confidence is a finite number.
\<close>

record ProductDetails =
  p_id :: string
  p_title :: string
  p_brand :: "string option"
  p_exactMention :: "string option"
  p_paragraphIndex :: "int option"
  p_confidence :: "rat option"
  p_verdict :: "string option"
  p_evidenceClaims :: "string list option"
  p_faqs :: "(string \<times> string) list option"

text \<open>A value that \<open>JSON.parse\<close> returns; an object lists its members in the text's order.\<close>

datatype json =
    JNull | JBool bool | JNum rat | JStr string | JArr "json list" | JObj "(string \<times> json) list"

text \<open>
  The property read \<open>parsed.k\<close>: a \<open>TypeError\<close> on \<open>null\<close>, the member's value on an
  object (the last one when the text repeats the name), \<open>undefined\<close> (\<open>None\<close>) otherwise.
\<close>

fun get_prop :: "json \<Rightarrow> string \<Rightarrow> js_error + json option" where
  "get_prop JNull k = Inl TypeError"
| "get_prop (JObj kvs) k = Inr (map_of (rev kvs) k)"
| "get_prop v k = Inr None"

fun truthy :: "json option \<Rightarrow> bool" where
  "truthy None = False"
| "truthy (Some JNull) = False"
| "truthy (Some (JBool b)) = b"
| "truthy (Some (JNum n)) = (n \<noteq> 0)"
| "truthy (Some (JStr s)) = (s \<noteq> [])"
| "truthy (Some (JArr vs)) = True"
| "truthy (Some (JObj kvs)) = True"

fun isArray :: "json option \<Rightarrow> bool" where
  "isArray (Some (JArr vs)) = True"
| "isArray v = False"

fun elements :: "json option \<Rightarrow> json list" where
  "elements (Some (JArr vs)) = vs"
| "elements v = []"

section \<open>Copy enhancement: \<open>enhanceProductCopy\<close> (src/unnamed/part\_002)\<close>

text \<open>
  The fields of the result hold whatever the parsed reply holds when that is truthy (or an
  array), so they are JSON values; a string of the product is \<open>JStr\<close>.
\<close>

record EnhancedCopy =
  verdict :: json
  headline :: json
  bulletPoints :: "json list"
  callToAction :: json
  faqs :: "json list"
  urgencyHook :: json

text \<open>
  \<open>text.match(/\{[\s\S]*\}/)\<close>: the match starts at the first \<open>{\<close> of the text and, the
  star being greedy over every character, ends at the last \<open>}\<close> behind it; without such
  a pair there is no match and the result is \<open>{}\<close>.
\<close>

definition extractJSON :: "string \<Rightarrow> string" where
  "extractJSON text =
     (let from_brace = dropWhile (\<lambda>c. c \<noteq> CHR ''{'') text in
      if from_brace = [] then ''{}''
      else (let upto = rev (dropWhile (\<lambda>c. c \<noteq> CHR ''}'') (rev (tl from_brace))) in
            if upto = [] then ''{}'' else CHR ''{'' # upto))"

text \<open>\<open>s || d\<close> for an optional string \<open>s\<close>: \<open>undefined\<close> and the empty string are falsy.\<close>

definition str_or :: "string option \<Rightarrow> string \<Rightarrow> string" where
  "str_or s d = (case s of None \<Rightarrow> d | Some t \<Rightarrow> if t = [] then d else t)"

text \<open>\<open>v || d\<close> for a property \<open>v\<close> of the parsed reply.\<close>

definition json_or :: "json option \<Rightarrow> json \<Rightarrow> json" where
  "json_or v d = (if truthy v then the v else d)"

definition faq_json :: "string \<times> string \<Rightarrow> json" where
  "faq_json qa = JObj [(''question'', JStr (fst qa)), (''answer'', JStr (snd qa))]"

text \<open>\<open>product.evidenceClaims || []\<close> and \<open>product.faqs || []\<close>.\<close>

definition product_claims :: "ProductDetails \<Rightarrow> json list" where
  "product_claims product =
     (case p_evidenceClaims product of None \<Rightarrow> [] | Some cs \<Rightarrow> map JStr cs)"

definition product_faqs :: "ProductDetails \<Rightarrow> json list" where
  "product_faqs product = (case p_faqs product of None \<Rightarrow> [] | Some qs \<Rightarrow> map faq_json qs)"

text \<open>The object that the \<open>catch\<close> block returns.\<close>

definition defaultCopy :: "ProductDetails \<Rightarrow> EnhancedCopy" where
  "defaultCopy product =
     \<lparr>verdict = JStr (str_or (p_verdict product) ''''),
      headline = JStr (str_or (Some (p_title product)) ''''),
      bulletPoints = product_claims product,
      callToAction = JStr ''Check Price on Amazon'',
      faqs = product_faqs product,
      urgencyHook = JStr ''''\<rparr>"

text \<open>The object that the \<open>try\<close> block returns, from the parsed reply.\<close>

definition copyFromParsed :: "json \<Rightarrow> ProductDetails \<Rightarrow> js_error + EnhancedCopy" where
  "copyFromParsed parsed product =
     (case get_prop parsed ''verdict'' of
        Inl e \<Rightarrow> Inl e
      | Inr pv \<Rightarrow>
          (case (get_prop parsed ''headline'', get_prop parsed ''bulletPoints'',
                 get_prop parsed ''callToAction'', get_prop parsed ''faqs'',
                 get_prop parsed ''urgencyHook'') of
             (Inr ph, Inr pb, Inr pc, Inr pf, Inr pu) \<Rightarrow>
               Inr \<lparr>verdict = json_or pv (JStr (str_or (p_verdict product) '''')),
                    headline = json_or ph (JStr (str_or (Some (p_title product)) '''')),
                    bulletPoints = (if isArray pb then elements pb else product_claims product),
                    callToAction = json_or pc (JStr ''Check Price on Amazon''),
                    faqs = (if isArray pf then elements pf else product_faqs product),
                    urgencyHook = json_or pu (JStr '''')\<rparr>
           | _ \<Rightarrow> Inl TypeError))"

text \<open>
  \<open>parse\<close> is \<open>JSON.parse\<close> and \<open>response\<close> is what \<open>await callAIProvider(...)\<close> yields: the
  reply's text, or the error it rejects with. The prompt, built before the \<open>try\<close> from
  strings only, does not enter the result.
\<close>

definition enhanceProductCopy_try ::
  "(string \<Rightarrow> js_error + json) \<Rightarrow> ProductDetails \<Rightarrow> js_error + string \<Rightarrow> js_error + EnhancedCopy" where
  "enhanceProductCopy_try parse product response =
     (case response of
        Inl e \<Rightarrow> Inl e
      | Inr text \<Rightarrow>
          (case parse (extractJSON text) of
             Inl e \<Rightarrow> Inl e
           | Inr parsed \<Rightarrow> copyFromParsed parsed product))"

definition enhanceProductCopy ::
  "(string \<Rightarrow> js_error + json) \<Rightarrow> ProductDetails \<Rightarrow> js_error + string \<Rightarrow> js_error + EnhancedCopy" where
  "enhanceProductCopy parse product response =
     try_catch (enhanceProductCopy_try parse product response)
       (\<lambda>error. Inr (defaultCopy product))"

text \<open>
  \<open>JSON.parse\<close> tabulated on the texts of the examples below; every other text that the
  examples hand to it is not JSON.
\<close>

definition JSON_parse_sample :: "string \<Rightarrow> js_error + json" where
  "JSON_parse_sample s =
     (if s = ''{}'' then Inr (JObj [])
      else if s = ''{\"headline\":\"Best\"}'' then Inr (JObj [(''headline'', JStr ''Best'')])
      else Inl SyntaxError)"

definition sample_product :: ProductDetails where
  "sample_product =
     \<lparr>p_id = ''p1'', p_title = ''Acme Kettle'', p_brand = Some ''Acme'', p_exactMention = None,
      p_paragraphIndex = None, p_confidence = None, p_verdict = Some ''Boils fast'',
      p_evidenceClaims = Some [''1.7 litres''], p_faqs = None\<rparr>"

section \<open>Strings\<close>

text \<open>
  A JavaScript string is the list of its UTF-16 code units; the model's characters are
  the code units below 256, the Latin-1 range, and a text with a code unit of 256 or above
  is outside the model. On the code units below 256 \<open>toLowerCase\<close> lowers the letters
  \<open>A\<close> to \<open>Z\<close> and the capitals from \<open>0xC0\<close> to \<open>0xDE\<close> other than the multiplication sign
  \<open>0xD7\<close>, each to the code unit 32 above it (the tables \<open>upper_case\<close> and \<open>lower_case\<close>), and
  leaves every other character; the class
  \<open>\s\<close>, which is also what \<open>trim\<close> strips, is tab, line feed, vertical tab, form feed,
  carriage return, space and the no-break space \<open>0xA0\<close>.
\<close>

definition upper_case :: string where
  "upper_case =
     ''ABCDEFGHIJKLMNOPQRSTUVWXYZ'' @
     [CHR 0xC0, CHR 0xC1, CHR 0xC2, CHR 0xC3, CHR 0xC4, CHR 0xC5, CHR 0xC6, CHR 0xC7,
      CHR 0xC8, CHR 0xC9, CHR 0xCA, CHR 0xCB, CHR 0xCC, CHR 0xCD, CHR 0xCE, CHR 0xCF,
      CHR 0xD0, CHR 0xD1, CHR 0xD2, CHR 0xD3, CHR 0xD4, CHR 0xD5, CHR 0xD6,
      CHR 0xD8, CHR 0xD9, CHR 0xDA, CHR 0xDB, CHR 0xDC, CHR 0xDD, CHR 0xDE]"

definition lower_case :: string where
  "lower_case =
     ''abcdefghijklmnopqrstuvwxyz'' @
     [CHR 0xE0, CHR 0xE1, CHR 0xE2, CHR 0xE3, CHR 0xE4, CHR 0xE5, CHR 0xE6, CHR 0xE7,
      CHR 0xE8, CHR 0xE9, CHR 0xEA, CHR 0xEB, CHR 0xEC, CHR 0xED, CHR 0xEE, CHR 0xEF,
      CHR 0xF0, CHR 0xF1, CHR 0xF2, CHR 0xF3, CHR 0xF4, CHR 0xF5, CHR 0xF6,
      CHR 0xF8, CHR 0xF9, CHR 0xFA, CHR 0xFB, CHR 0xFC, CHR 0xFD, CHR 0xFE]"

definition toLowerCase_char :: "char \<Rightarrow> char" where
  "toLowerCase_char c =
     (case map_of (zip upper_case lower_case) c of
        Some l \<Rightarrow> l
      | None \<Rightarrow> c)"

definition toLowerCase :: "string \<Rightarrow> string" where
  "toLowerCase s = map toLowerCase_char s"

definition is_space :: "char \<Rightarrow> bool" where
  "is_space c \<longleftrightarrow>
     c \<in> set [CHR 0x09, CHR 0x0A, CHR 0x0B, CHR 0x0C, CHR 0x0D, CHR '' '', CHR 0xA0]"

text \<open>
  \<open>s.split(/\s+/)\<close>: the pieces between the maximal runs of white space; a run at either
  end leaves an empty piece there, and the empty string splits into one empty piece.
\<close>

fun split_spaces :: "string \<Rightarrow> string list" where
  "split_spaces [] = [[]]"
| "split_spaces (c # cs) =
     (if is_space c
      then (if cs \<noteq> [] \<and> is_space (hd cs) then split_spaces cs else [] # split_spaces cs)
      else (case split_spaces cs of
              [] \<Rightarrow> [[c]]
            | w # ws \<Rightarrow> (c # w) # ws))"

text \<open>\<open>s.includes(w)\<close>: \<open>w\<close> occurs in \<open>s\<close> as a run of consecutive characters.\<close>

fun string_includes :: "string \<Rightarrow> string \<Rightarrow> bool" where
  "string_includes [] w = (w = [])"
| "string_includes (c # cs) w = (prefix w (c # cs) \<or> string_includes cs w)"

text \<open>\<open>s.trim()\<close>.\<close>

definition trim :: "string \<Rightarrow> string" where
  "trim s = rev (dropWhile is_space (rev (dropWhile is_space s)))"

text \<open>
  \<open>s.replace(/<[^>]+>/g, '')\<close>: at a \<open><\<close> that has a \<open>>\<close> somewhere behind it with at
  least one character between the two, the text up to the first such \<open>>\<close> is removed; any
  other character is kept. \<open>strip_fuel\<close> bounds the recursion by the length of the text.
\<close>

fun strip_fuel :: "nat \<Rightarrow> string \<Rightarrow> string" where
  "strip_fuel 0 s = s"
| "strip_fuel (Suc n) [] = []"
| "strip_fuel (Suc n) (c # cs) =
     (if c = CHR ''<'' \<and> takeWhile (\<lambda>x. x \<noteq> CHR ''>'') cs \<noteq> []
         \<and> dropWhile (\<lambda>x. x \<noteq> CHR ''>'') cs \<noteq> []
      then strip_fuel n (tl (dropWhile (\<lambda>x. x \<noteq> CHR ''>'') cs))
      else c # strip_fuel n cs)"

definition stripTags :: "string \<Rightarrow> string" where
  "stripTags s = strip_fuel (length s) s"
section \<open>Relevance engine: \<open>calculateRelevance\<close> (src/unnamed/part\_004)\<close>

text \<open>
  \<open>relevanceCache\<close>, a \<open>Map\<close> from keys to scores, in insertion order: \<open>AList.update\<close> is
  \<open>Map.set\<close> (a new key goes to the end, a stored key keeps its place).
\<close>

type_synonym relevance_cache = "(string \<times> int) list"

definition cacheKey :: "string \<Rightarrow> ProductDetails \<Rightarrow> string" where
  "cacheKey text product = take 100 text @ ''_'' @ p_id product"

text \<open>\<open>s.split(/\s+/).filter((w) => w.length > 3)\<close>.\<close>

definition significant_words :: "string \<Rightarrow> string list" where
  "significant_words s = filter (\<lambda>w. length w > 3) (split_spaces s)"

text \<open>
  The block \<open>if (product.exactMention) { ... }\<close>. \<open>ratio > 0.7\<close> compares the quotient of
  two word counts with \<open>0.7\<close>; the comparison of the doubles agrees with the one of the
  rationals for every word list of fewer than \<open>2^50\<close> words.
\<close>

definition exactMention_step :: "string \<Rightarrow> ProductDetails \<Rightarrow> int \<Rightarrow> int" where
  "exactMention_step clean product score =
     (case p_exactMention product of
        None \<Rightarrow> score
      | Some mention \<Rightarrow>
          if mention = [] then score
          else (let ws = significant_words (toLowerCase mention);
                    ratio = (if length ws > 0
                             then rat_of_nat (length (filter (string_includes clean) ws))
                                  / rat_of_nat (length ws)
                             else 0)
                in if ratio > 7 / 10 then score + 1000 else score))"

definition title_step :: "string \<Rightarrow> ProductDetails \<Rightarrow> int \<Rightarrow> int" where
  "title_step clean product score =
     (if string_includes clean (toLowerCase (p_title product)) then score + 100 else score)"

definition brand_step :: "string \<Rightarrow> ProductDetails \<Rightarrow> int \<Rightarrow> int" where
  "brand_step clean product score =
     (case p_brand product of
        None \<Rightarrow> score
      | Some b \<Rightarrow>
          (let brand = toLowerCase b
           in if brand \<noteq> [] \<and> string_includes clean brand then score + 50 else score))"

text \<open>The \<open>forEach\<close> over the significant words of the title.\<close>

definition title_words_step :: "string \<Rightarrow> ProductDetails \<Rightarrow> int \<Rightarrow> int" where
  "title_words_step clean product score =
     fold (\<lambda>w sc. if string_includes clean w then sc + 10 else sc)
       (significant_words (toLowerCase (p_title product))) score"

definition short_text_step :: "string \<Rightarrow> int \<Rightarrow> int" where
  "short_text_step text score = (if length text < 50 \<and> score < 50 then score - 10 else score)"

text \<open>The score that a miss of the cache computes, statement by statement.\<close>

definition computeScore :: "string \<Rightarrow> ProductDetails \<Rightarrow> int" where
  "computeScore text product =
     (let clean = toLowerCase text;
          score = 0;
          score = exactMention_step clean product score;
          score = title_step clean product score;
          score = brand_step clean product score;
          score = title_words_step clean product score;
          score = short_text_step text score
      in score)"

text \<open>
  \<open>relevanceCache.set(cacheKey, score)\<close> and the eviction behind it: above 1000 entries the
  first 500 keys are deleted.
\<close>

definition cache_store :: "string \<Rightarrow> int \<Rightarrow> relevance_cache \<Rightarrow> relevance_cache" where
  "cache_store key score cache =
     (let cache1 = AList.update key score cache
      in if length cache1 > 1000
         then fold AList.delete (take 500 (map fst cache1)) cache1
         else cache1)"

definition calculateRelevance ::
  "string \<Rightarrow> ProductDetails \<Rightarrow> relevance_cache \<Rightarrow> int \<times> relevance_cache" where
  "calculateRelevance text product cache =
     (case map_of cache (cacheKey text product) of
        Some cached \<Rightarrow> (cached, cache)
      | None \<Rightarrow>
          (let score = computeScore text product
           in (score, cache_store (cacheKey text product) score cache)))"

subsection \<open>The score as the specification words it\<close>

text \<open>
  The share of the significant words of the exact-mention text that occur in the lowered
  block; \<open>None\<close> when the candidate has no exact-mention text or the text has no significant
  word.
\<close>

definition mention_share :: "string \<Rightarrow> ProductDetails \<Rightarrow> rat option" where
  "mention_share text product =
     (case p_exactMention product of
        None \<Rightarrow> None
      | Some mention \<Rightarrow>
          (let ws = significant_words (toLowerCase mention)
           in if ws = [] then None
              else Some (rat_of_nat (length (filter (string_includes (toLowerCase text)) ws))
                         / rat_of_nat (length ws))))"

definition contains_title :: "string \<Rightarrow> ProductDetails \<Rightarrow> bool" where
  "contains_title text product \<longleftrightarrow>
     string_includes (toLowerCase text) (toLowerCase (p_title product))"

definition contains_brand :: "string \<Rightarrow> ProductDetails \<Rightarrow> bool" where
  "contains_brand text product \<longleftrightarrow>
     (case p_brand product of
        None \<Rightarrow> False
      | Some b \<Rightarrow> b \<noteq> [] \<and> string_includes (toLowerCase text) (toLowerCase b))"

definition title_words_present :: "string \<Rightarrow> ProductDetails \<Rightarrow> nat" where
  "title_words_present text product =
     length (filter (string_includes (toLowerCase text))
               (significant_words (toLowerCase (p_title product))))"

text \<open>
  The sum of the claim, with the test on the share left open: \<open>reaches\<close> says whether a
  share earns the 1000 points.
\<close>

definition score_sum :: "(rat \<Rightarrow> bool) \<Rightarrow> string \<Rightarrow> ProductDetails \<Rightarrow> int" where
  "score_sum reaches text product =
     (let accumulated =
            (case mention_share text product of
               None \<Rightarrow> 0
             | Some share \<Rightarrow> if reaches share then 1000 else 0)
          + (if contains_title text product then 100 else 0)
          + (if contains_brand text product then 50 else 0)
          + 10 * int (title_words_present text product)
      in accumulated + (if length text < 50 \<and> accumulated < 50 then - 10 else 0))"

text \<open>The score as the specification states it: 1000 points at a share of 70% or more.\<close>

definition stated_score :: "string \<Rightarrow> ProductDetails \<Rightarrow> int" where
  "stated_score text product = score_sum (\<lambda>share. share \<ge> 7 / 10) text product"

text \<open>The score with 1000 points at a share above 70% only.\<close>

definition amended_score :: "string \<Rightarrow> ProductDetails \<Rightarrow> int" where
  "amended_score text product = score_sum (\<lambda>share. share > 7 / 10) text product"

definition mention_product :: ProductDetails where
  "mention_product =
     \<lparr>p_id = ''p2'', p_title = ''Zed'', p_brand = None,
      p_exactMention = Some ''Alpha Bravo Charlie Delta Eagle Foxtrot Hotel India Juliet Kilos'',
      p_paragraphIndex = None, p_confidence = None, p_verdict = None,
      p_evidenceClaims = None, p_faqs = None\<rparr>"
section \<open>Editor document and batch placement: \<open>handleAutoPopulate\<close> (src/unnamed/part\_004)\<close>

text \<open>
  Modelled from the spec: \<open>ComparisonData\<close> is declared in \<open>types.ts\<close>, which is not among
  the sources; the spec's data model gives a comparison table an ordered list of product
  ids and an ordered list of spec keys.
\<close>

record ComparisonData =
  cmp_productIds :: "string list"
  cmp_specs :: "string list"

datatype node_type = HTML | PRODUCT | COMPARISON

record EditorNode =
  node_id :: string
  node_type :: node_type
  content :: "string option"
  productId :: "string option"
  comparisonData :: "ComparisonData option"

definition MIN_GAP_BETWEEN_PRODUCTS :: nat where
  "MIN_GAP_BETWEEN_PRODUCTS = 3"

text \<open>\<open>n.type === 'PRODUCT' || n.type === 'COMPARISON'\<close>.\<close>

definition is_placed_block :: "EditorNode \<Rightarrow> bool" where
  "is_placed_block n \<longleftrightarrow> node_type n = PRODUCT \<or> node_type n = COMPARISON"

text \<open>
  The product map is an object; the list is in the order of \<open>Object.values\<close>, the
  order in which the object lists its own properties.
\<close>

definition getUnplacedProducts ::
  "EditorNode list \<Rightarrow> (string \<times> ProductDetails) list \<Rightarrow> ProductDetails list" where
  "getUnplacedProducts editorNodes productMap =
     (let placedIds = set (map productId (filter (\<lambda>n. node_type n = PRODUCT) editorNodes))
      in filter (\<lambda>p. Some (p_id p) \<notin> placedIds) (map snd productMap))"

text \<open>
  \<open>getOccupied\<close>: the indices from \<open>Math.max(0, i - MIN_GAP)\<close> (the subtraction of natural
  numbers stops at 0) to \<open>Math.min(nodes.length - 1, i + MIN_GAP)\<close>, for every product or
  comparison node \<open>i\<close>.
\<close>

definition getOccupied :: "EditorNode list \<Rightarrow> nat list" where
  "getOccupied nodes =
     concat (map (\<lambda>(i, n).
                if is_placed_block n
                then [i - MIN_GAP_BETWEEN_PRODUCTS
                      ..< Suc (min (length nodes - 1) (i + MIN_GAP_BETWEEN_PRODUCTS))]
                else [])
             (enumerate 0 nodes))"

text \<open>
  The comparator of \<open>sort\<close>, by its sign (\<open>sort\<close> reads nothing else): a missing paragraph
  index counts as \<open>Infinity\<close>, so \<open>bi - ai\<close> is \<open>-Infinity\<close> when only \<open>a\<close> lacks one and
  \<open>Infinity\<close> when only \<open>b\<close> does; a missing confidence counts as 0.
\<close>

definition confidence_or_zero :: "ProductDetails \<Rightarrow> rat" where
  "confidence_or_zero p = (case p_confidence p of None \<Rightarrow> 0 | Some c \<Rightarrow> c)"

definition compareCandidates :: "ProductDetails \<Rightarrow> ProductDetails \<Rightarrow> int" where
  "compareCandidates a b =
     (let ai = p_paragraphIndex a; bi = p_paragraphIndex b
      in if ai \<noteq> bi
         then (case (ai, bi) of
                 (None, _) \<Rightarrow> - 1
               | (Some x, None) \<Rightarrow> 1
               | (Some x, Some y) \<Rightarrow> sgn (y - x))
         else (if confidence_or_zero b < confidence_or_zero a then - 1
               else if confidence_or_zero b = confidence_or_zero a then 0 else 1))"

text \<open>
  \<open>Array.prototype.sort\<close> is stable, and the comparator is a consistent one, so the result
  is the one sorted arrangement that keeps the given order among candidates that compare
  equal; insertion from the right computes it.
\<close>

fun insert_sorted ::
  "('a \<Rightarrow> 'a \<Rightarrow> int) \<Rightarrow> 'a \<Rightarrow> 'a list \<Rightarrow> 'a list" where
  "insert_sorted cmp x [] = [x]"
| "insert_sorted cmp x (y # ys) =
     (if cmp x y \<le> 0 then x # y # ys else y # insert_sorted cmp x ys)"

definition sort_by :: "('a \<Rightarrow> 'a \<Rightarrow> int) \<Rightarrow> 'a list \<Rightarrow> 'a list" where
  "sort_by cmp xs = foldr (insert_sorted cmp) xs []"

definition sortCandidates :: "ProductDetails list \<Rightarrow> ProductDetails list" where
  "sortCandidates toPlace = sort_by compareCandidates toPlace"

text \<open>
  The loop that looks for the HTML block number \<open>target\<close>: \<open>i\<close> is the index of the head of
  the remaining nodes, \<open>htmlCount\<close> the HTML blocks passed.
\<close>

fun paragraph_position :: "EditorNode list \<Rightarrow> nat \<Rightarrow> int \<Rightarrow> int \<Rightarrow> nat option" where
  "paragraph_position [] i htmlCount target = None"
| "paragraph_position (n # ns) i htmlCount target =
     (if node_type n = HTML
      then (if htmlCount = target then Some i
            else paragraph_position ns (Suc i) (htmlCount + 1) target)
      else paragraph_position ns (Suc i) htmlCount target)"

text \<open>The loop \<open>for (let off = 1; off <= 4; off++)\<close>, over the offsets still to try.\<close>

fun probe :: "EditorNode list \<Rightarrow> nat list \<Rightarrow> nat \<Rightarrow> nat list \<Rightarrow> nat option" where
  "probe nodes occupied i [] = None"
| "probe nodes occupied i (off # offs) =
     (if i + off < length nodes \<and> i + off \<notin> set occupied
         \<and> node_type (nodes ! (i + off)) = HTML
      then Some (i + off)
      else if off \<le> i \<and> i - off \<notin> set occupied \<and> node_type (nodes ! (i - off)) = HTML
      then Some (i - off)
      else probe nodes occupied i offs)"

text \<open>
  The block \<open>Try paragraph index first\<close>: the pair of \<open>bestIdx\<close> and \<open>maxScore\<close> behind it,
  both \<open>-1\<close> at the start.
\<close>

definition tryParagraphIndex ::
  "ProductDetails \<Rightarrow> EditorNode list \<Rightarrow> nat list \<Rightarrow> int \<times> int" where
  "tryParagraphIndex p newNodes occupied =
     (case p_paragraphIndex p of
        None \<Rightarrow> (- 1, - 1)
      | Some k \<Rightarrow>
          if k \<ge> 0
          then (case paragraph_position newNodes 0 0 k of
                  None \<Rightarrow> (- 1, - 1)
                | Some i \<Rightarrow>
                    if i \<notin> set occupied then (int i, 10000)
                    else (case probe newNodes occupied i [1, 2, 3, 4] of
                            None \<Rightarrow> (- 1, - 1)
                          | Some j \<Rightarrow> (int j, 9000)))
          else (- 1, - 1))"

text \<open>
  One round of the \<open>forEach\<close> of the block \<open>Fallback: content matching\<close>, on the node at
  \<open>idx\<close>; the state is the relevance cache with \<open>bestIdx\<close> and \<open>maxScore\<close>.
\<close>

definition contentMatch ::
  "ProductDetails \<Rightarrow> nat list \<Rightarrow> nat \<times> EditorNode \<Rightarrow> relevance_cache \<times> int \<times> int
     \<Rightarrow> relevance_cache \<times> int \<times> int" where
  "contentMatch p occupied entry st =
     (case (entry, st) of
        ((idx, node), (cache, bestIdx, maxScore)) \<Rightarrow>
          (case content node of
             None \<Rightarrow> st
           | Some text \<Rightarrow>
               if node_type node = HTML \<and> text \<noteq> [] \<and> idx \<notin> set occupied
               then (case calculateRelevance text p cache of
                       (score0, cache') \<Rightarrow>
                         (let len = length (trim (stripTags text));
                              score1 = (if len < 30 then score0 - 50 else score0);
                              score = (if len > 200 then score1 + 15 else score1)
                          in if score > maxScore then (cache', int idx, score)
                             else (cache', bestIdx, maxScore)))
               else st))"

text \<open>The search of one candidate for its position: \<open>bestIdx\<close> and \<open>maxScore\<close>.\<close>

definition findPosition ::
  "ProductDetails \<Rightarrow> EditorNode list \<Rightarrow> relevance_cache \<Rightarrow> relevance_cache \<times> int \<times> int" where
  "findPosition p newNodes cache =
     (let occupied = getOccupied newNodes;
          hinted = tryParagraphIndex p newNodes occupied
      in if snd hinted < 9000
         then fold (contentMatch p occupied) (enumerate 0 newNodes) (cache, fst hinted, snd hinted)
         else (cache, fst hinted, snd hinted))"

text \<open>Decimal digits of a number, for the template strings.\<close>

fun string_of_nat :: "nat \<Rightarrow> string" where
  "string_of_nat n =
     (if n < 10 then [''0123456789'' ! n]
      else string_of_nat (n div 10) @ [''0123456789'' ! (n mod 10)])"

declare string_of_nat.simps [simp del]

text \<open>\<open>xs.splice(k, 0, x)\<close>; an index behind the end appends.\<close>

definition splice :: "nat \<Rightarrow> 'a \<Rightarrow> 'a list \<Rightarrow> 'a list" where
  "splice k x xs = take k xs @ x # drop k xs"

definition productNode :: "string \<Rightarrow> nat \<Rightarrow> nat \<Rightarrow> EditorNode" where
  "productNode pid now injected =
     \<lparr>node_id = ''prod-node-'' @ pid @ ''-'' @ string_of_nat now @ ''-'' @ string_of_nat injected,
      node_type = PRODUCT, content = None, productId = Some pid, comparisonData = None\<rparr>"

text \<open>
  The body of \<open>sorted.forEach\<close>; the state is \<open>newNodes\<close>, \<open>injected\<close> and the relevance
  cache, \<open>now\<close> is \<open>Date.now()\<close>.
\<close>

definition placeCandidate ::
  "nat \<Rightarrow> ProductDetails \<Rightarrow> EditorNode list \<times> nat \<times> relevance_cache
     \<Rightarrow> EditorNode list \<times> nat \<times> relevance_cache" where
  "placeCandidate now p st =
     (case st of
        (newNodes, injected, cache) \<Rightarrow>
          (case findPosition p newNodes cache of
             (cache', bestIdx, maxScore) \<Rightarrow>
               if bestIdx \<ge> 0 \<and> maxScore > 0
               then (splice (nat bestIdx + 1) (productNode (p_id p) now injected) newNodes,
                     injected + 1, cache')
               else (newNodes, injected, cache')))"

text \<open>
  The result is the node list handed to \<open>setEditorNodes\<close>, the count \<open>injected\<close> of the
  toast and the relevance cache; with nothing to place the handler returns at once.
\<close>

definition handleAutoPopulate ::
  "nat \<Rightarrow> EditorNode list \<Rightarrow> (string \<times> ProductDetails) list \<Rightarrow> relevance_cache
     \<Rightarrow> EditorNode list \<times> nat \<times> relevance_cache" where
  "handleAutoPopulate now editorNodes productMap cache =
     (let toPlace = getUnplacedProducts editorNodes productMap
      in if length toPlace = 0 then (editorNodes, 0, cache)
         else fold (placeCandidate now) (sortCandidates toPlace) (editorNodes, 0, cache))"

subsection \<open>Which nodes a batch inserted\<close>

text \<open>
  The same loop with a list of flags beside the nodes, one flag per node: \<open>True\<close> marks a
  node that the batch inserted. The flags do not enter any decision.
\<close>

definition placeCandidate_flagged ::
  "nat \<Rightarrow> ProductDetails \<Rightarrow> (EditorNode list \<times> nat \<times> relevance_cache) \<times> bool list
     \<Rightarrow> (EditorNode list \<times> nat \<times> relevance_cache) \<times> bool list" where
  "placeCandidate_flagged now p sf =
     (case sf of
        ((newNodes, injected, cache), flags) \<Rightarrow>
          (case findPosition p newNodes cache of
             (cache', bestIdx, maxScore) \<Rightarrow>
               (placeCandidate now p (newNodes, injected, cache),
                if bestIdx \<ge> 0 \<and> maxScore > 0 then splice (nat bestIdx + 1) True flags
                else flags)))"

definition inserted_flags ::
  "nat \<Rightarrow> EditorNode list \<Rightarrow> (string \<times> ProductDetails) list \<Rightarrow> relevance_cache \<Rightarrow> bool list" where
  "inserted_flags now editorNodes productMap cache =
     snd (fold (placeCandidate_flagged now)
            (sortCandidates (getUnplacedProducts editorNodes productMap))
            ((editorNodes, 0, cache), replicate (length editorNodes) False))"

text \<open>The nodes whose flag is \<open>False\<close>, in order.\<close>

definition unflagged :: "'a list \<Rightarrow> bool list \<Rightarrow> 'a list" where
  "unflagged xs flags = map fst (filter (\<lambda>xf. \<not> snd xf) (zip xs flags))"

subsection \<open>The order of the batch in words\<close>

text \<open>
  \<open>precedes a b\<close>: \<open>a\<close> may stand before \<open>b\<close> in the sorted batch. A candidate without a
  paragraph index stands before every candidate with one; of two candidates with an
  index, the larger index stands first; candidates that agree on the index (or both lack
  it) stand in the order of falling confidence.
\<close>

definition precedes :: "ProductDetails \<Rightarrow> ProductDetails \<Rightarrow> bool" where
  "precedes a b =
     (case (p_paragraphIndex a, p_paragraphIndex b) of
        (None, None) \<Rightarrow> confidence_or_zero b \<le> confidence_or_zero a
      | (None, Some y) \<Rightarrow> True
      | (Some x, None) \<Rightarrow> False
      | (Some x, Some y) \<Rightarrow> y < x \<or> (y = x \<and> confidence_or_zero b \<le> confidence_or_zero a))"

text \<open>A candidate with the given id, title, paragraph index and confidence.\<close>

definition candidate :: "string \<Rightarrow> string \<Rightarrow> int option \<Rightarrow> rat option \<Rightarrow> ProductDetails" where
  "candidate i t k c =
     \<lparr>p_id = i, p_title = t, p_brand = None, p_exactMention = None,
      p_paragraphIndex = k, p_confidence = c, p_verdict = None,
      p_evidenceClaims = None, p_faqs = None\<rparr>"

text \<open>An HTML block with the given id and content.\<close>

definition htmlBlock :: "string \<Rightarrow> string \<Rightarrow> EditorNode" where
  "htmlBlock i c =
     \<lparr>node_id = i, node_type = HTML, content = Some c, productId = None, comparisonData = None\<rparr>"

subsection \<open>The gap between placed blocks\<close>

text \<open>What the flags say of a node list: the invariant of the batch loop.\<close>

definition gap_kept :: "EditorNode list \<Rightarrow> bool list \<Rightarrow> bool" where
  "gap_kept nodes flags \<longleftrightarrow>
     length flags = length nodes
     \<and> (\<forall>p < length nodes. flags ! p \<longrightarrow> node_type (nodes ! p) = PRODUCT)
     \<and> (\<forall>p q. p < length nodes \<and> q < length nodes \<and> flags ! p \<and> q \<noteq> p
            \<and> is_placed_block (nodes ! q)
          \<longrightarrow> p + MIN_GAP_BETWEEN_PRODUCTS < q \<or> q + MIN_GAP_BETWEEN_PRODUCTS < p)"

text \<open>The same of a state of the loop with flags, with the nodes the batch started from.\<close>

definition batch_inv ::
  "EditorNode list \<Rightarrow> (EditorNode list \<times> nat \<times> relevance_cache) \<times> bool list \<Rightarrow> bool" where
  "batch_inv original sf \<longleftrightarrow>
     (case sf of
        ((nodes, injected, cache), flags) \<Rightarrow>
          gap_kept nodes flags \<and> unflagged nodes flags = original
          \<and> length (filter id flags) = injected)"

text \<open>
  A document of twelve HTML blocks with a comparison table behind the first, and a product
  map of two candidates with a paragraph index and one without.
\<close>

definition sample_nodes :: "EditorNode list" where
  "sample_nodes =
     splice 1 \<lparr>node_id = ''comp-table-5'', node_type = COMPARISON, content = None,
               productId = None,
               comparisonData = Some \<lparr>cmp_productIds = [''a'', ''b''], cmp_specs = [''Price'']\<rparr>\<rparr>
       (map (\<lambda>i. htmlBlock (string_of_nat i) ''some kettle text'') [0..<12])"

definition sample_map :: "(string \<times> ProductDetails) list" where
  "sample_map =
     [(''a'', candidate ''a'' ''Kettle'' (Some 2) None),
      (''b'', candidate ''b'' ''Kettle'' (Some 3) None),
      (''c'', candidate ''c'' ''Kettle'' None None)]"

section \<open>Deep scan with fallback: \<open>runDeepScan\<close> (src/unnamed/part\_004)\<close>

text \<open>
  The detectors are modules outside the sources (\<open>utils/precision-detector\<close>, \<open>utils\<close>): the
  model takes them as functions of the title and the HTML that return a result or throw.
  \<open>AppConfig\<close> has the two fields the scan reads.
\<close>

record AppConfig =
  aiProvider :: "string option"
  serpApiKey :: "string option"

record precision_result =
  pr_products :: "ProductDetails list"
  pr_comparison :: "ComparisonData option"
  pr_contentType :: string
  pr_candidateCount :: nat

record legacy_result =
  detectedProducts :: "ProductDetails list"
  lr_comparison :: "ComparisonData option"

text \<open>\<open>None\<close>: the dynamic \<open>import\<close> finds no module.\<close>

type_synonym precision_module = "(string \<Rightarrow> string \<Rightarrow> js_error + precision_result) option"

type_synonym legacy_detector = "string \<Rightarrow> string \<Rightarrow> js_error + legacy_result"

datatype detector = PrecisionDetector | LegacyDetector

definition tryPrecisionDetect :: "precision_module \<Rightarrow> string \<Rightarrow> string \<Rightarrow> precision_result option" where
  "tryPrecisionDetect precision title html_text =
     (case precision of
        None \<Rightarrow> None
      | Some detectProductsPrecision \<Rightarrow>
          (case detectProductsPrecision title html_text of
             Inl e \<Rightarrow> None
           | Inr r \<Rightarrow> Some r))"

text \<open>\<open>xs.join(sep)\<close>.\<close>

fun join :: "string \<Rightarrow> string list \<Rightarrow> string" where
  "join sep [] = []"
| "join sep [x] = x"
| "join sep (x # y # ys) = x @ sep @ join sep (y # ys)"

definition currentHtml :: "EditorNode list \<Rightarrow> string" where
  "currentHtml editorNodes =
     join [CHR 0x0A, CHR 0x0A]
       (map (\<lambda>n. case content n of None \<Rightarrow> [] | Some c \<Rightarrow> c)
          (filter (\<lambda>n. node_type n = HTML) editorNodes))"

text \<open>
  The unified result of the detection step, whichever detector gave it: the variables
  \<open>products\<close>, \<open>comparison\<close> and \<open>candidateCount\<close>.
\<close>

record detection =
  products :: "ProductDetails list"
  comparison :: "ComparisonData option"
  candidateCount :: nat

text \<open>
  Steps 1 and 2 of the scan. The first component lists the detectors that were called, in
  order; the second is the outcome, an error when the legacy detector throws.
\<close>

definition detectWithFallback ::
  "precision_module \<Rightarrow> legacy_detector \<Rightarrow> string \<Rightarrow> string \<Rightarrow> detector list \<times> (js_error + detection)" where
  "detectWithFallback precision analyzeContentAndFindProduct title html_text =
     (let precisionResult = tryPrecisionDetect precision title html_text;
          called = (case precision of None \<Rightarrow> [] | Some m \<Rightarrow> [PrecisionDetector])
      in case precisionResult of
           Some r \<Rightarrow>
             if length (pr_products r) > 0
             then (called,
                   Inr \<lparr>products = pr_products r, comparison = pr_comparison r,
                        candidateCount = pr_candidateCount r\<rparr>)
             else (called @ [LegacyDetector],
                   case analyzeContentAndFindProduct title html_text of
                     Inl e \<Rightarrow> Inl e
                   | Inr legacy \<Rightarrow>
                       Inr \<lparr>products = detectedProducts legacy, comparison = lr_comparison legacy,
                            candidateCount = length (detectedProducts legacy)\<rparr>)
         | None \<Rightarrow>
             (called @ [LegacyDetector],
              case analyzeContentAndFindProduct title html_text of
                Inl e \<Rightarrow> Inl e
              | Inr legacy \<Rightarrow>
                  Inr \<lparr>products = detectedProducts legacy, comparison = lr_comparison legacy,
                       candidateCount = length (detectedProducts legacy)\<rparr>))"

text \<open>
  The own properties of a JavaScript object are listed with the array indices first, in
  rising numeric order, and the other names behind them in the order of their creation.
  An array index is the decimal numeral, without a leading zero, of a number below
  \<open>2^32 - 1\<close>.
\<close>

definition decimal_value :: "string \<Rightarrow> int" where
  "decimal_value k = fold (\<lambda>c n. 10 * n + (of_char c - 48)) k 0"

definition array_index :: "string \<Rightarrow> int option" where
  "array_index k =
     (if k \<noteq> [] \<and> list_all (\<lambda>c. c \<in> set ''0123456789'') k
         \<and> (k = ''0'' \<or> hd k \<noteq> CHR ''0'') \<and> decimal_value k < 4294967295
      then Some (decimal_value k) else None)"

text \<open>The new property \<open>k\<close> is listed before the property \<open>k'\<close>.\<close>

definition listed_before :: "string \<Rightarrow> string \<Rightarrow> bool" where
  "listed_before k k' =
     (case array_index k of
        None \<Rightarrow> False
      | Some i \<Rightarrow> (case array_index k' of None \<Rightarrow> True | Some j \<Rightarrow> i < j))"

fun insert_property :: "string \<Rightarrow> 'v \<Rightarrow> (string \<times> 'v) list \<Rightarrow> (string \<times> 'v) list" where
  "insert_property k v [] = [(k, v)]"
| "insert_property k v (e # m) =
     (if listed_before k (fst e) then (k, v) # e # m else e # insert_property k v m)"

text \<open>\<open>obj[k] = v\<close>: a property that exists keeps its place.\<close>

definition object_set :: "string \<Rightarrow> 'v \<Rightarrow> (string \<times> 'v) list \<Rightarrow> (string \<times> 'v) list" where
  "object_set k v m =
     (if k \<in> set (map fst m) then AList.update k v m else insert_property k v m)"

text \<open>
  Step 3: \<open>newMap = { ...productMap }\<close> and \<open>newMap[p.id] = p\<close> for every product.
\<close>

definition mergeProducts ::
  "(string \<times> ProductDetails) list \<Rightarrow> ProductDetails list \<Rightarrow> (string \<times> ProductDetails) list" where
  "mergeProducts productMap ps = fold (\<lambda>p newMap. object_set (p_id p) p newMap) ps productMap"

definition foundToast :: "detection \<Rightarrow> string" where
  "foundToast d =
     ''Precision Scan: '' @
     (if candidateCount d > length (products d)
      then string_of_nat (length (products d)) @ '' products verified (from '' @
           string_of_nat (candidateCount d) @ '' candidates)''
      else string_of_nat (length (products d)) @ '' products found'')"

definition nothingFoundToast :: "AppConfig \<Rightarrow> string \<Rightarrow> string" where
  "nothingFoundToast config html_text =
     (if length (trim (stripTags html_text)) < 200 then ''Content too short for product detection.''
      else if serpApiKey config = None \<or> serpApiKey config = Some []
      then ''SerpAPI key required. Add it in Settings > Amazon.''
      else ''No Amazon-verifiable products found. Try adding manually via ASIN.'')"

definition comparisonNode :: "nat \<Rightarrow> ComparisonData \<Rightarrow> EditorNode" where
  "comparisonNode now c =
     \<lparr>node_id = ''comp-table-'' @ string_of_nat now, node_type = COMPARISON, content = None,
      productId = None, comparisonData = Some c\<rparr>"

text \<open>
  What the scan leaves behind: the product map and the document (each as it was unless
  the scan set it), the toasts in order, and the detectors it called. The status is back
  to \<open>idle\<close> and the progress overlay is cleared on every path (\<open>finally\<close>).
\<close>

record scan_outcome =
  so_productMap :: "(string \<times> ProductDetails) list"
  so_editorNodes :: "EditorNode list"
  so_toasts :: "string list"
  so_called :: "detector list"

text \<open>Steps 3 and 4, on the unified result.\<close>

definition applyDetection ::
  "nat \<Rightarrow> AppConfig \<Rightarrow> string \<Rightarrow> EditorNode list \<Rightarrow> (string \<times> ProductDetails) list
     \<Rightarrow> detector list \<Rightarrow> detection \<Rightarrow> scan_outcome" where
  "applyDetection now config html_text editorNodes productMap called d =
     (let merged = (if length (products d) > 0 then mergeProducts productMap (products d)
                    else productMap);
          toast1 = (if length (products d) > 0 then foundToast d
                    else nothingFoundToast config html_text)
      in case comparison d of
           None \<Rightarrow>
             \<lparr>so_productMap = merged, so_editorNodes = editorNodes, so_toasts = [toast1],
              so_called = called\<rparr>
         | Some c \<Rightarrow>
             if list_ex (\<lambda>n. node_type n = COMPARISON) editorNodes
             then \<lparr>so_productMap = merged, so_editorNodes = editorNodes, so_toasts = [toast1],
                   so_called = called\<rparr>
             else \<lparr>so_productMap = merged,
                   so_editorNodes = splice 1 (comparisonNode now c) editorNodes,
                   so_toasts = [toast1, ''Comparison Table Added''],
                   so_called = called\<rparr>)"

text \<open>\<open>e.message\<close>, for the errors this model throws.\<close>

fun message :: "js_error \<Rightarrow> string" where
  "message (Error m) = m"
| "message SecurityError = ''The operation is insecure.''"
| "message QuotaExceededError = ''The quota has been exceeded.''"
| "message SyntaxError = ''Unexpected token''"
| "message TypeError = ''Cannot read properties''"

text \<open>The \<open>catch\<close> block: one toast with the message.\<close>

definition failureToast :: "js_error \<Rightarrow> string" where
  "failureToast e =
     (let msg = take 120 (if message e = [] then ''Unknown error'' else message e)
      in if string_includes msg ''SerpAPI'' then msg else ''Scan Failed: '' @ msg)"

definition runDeepScan ::
  "nat \<Rightarrow> AppConfig \<Rightarrow> string \<Rightarrow> precision_module \<Rightarrow> legacy_detector
     \<Rightarrow> EditorNode list \<Rightarrow> (string \<times> ProductDetails) list \<Rightarrow> scan_outcome" where
  "runDeepScan now config title precision analyzeContentAndFindProduct editorNodes productMap =
     (let failed = (\<lambda>called e.
            \<lparr>so_productMap = productMap, so_editorNodes = editorNodes,
             so_toasts = [failureToast e], so_called = called\<rparr>)
      in if aiProvider config = None \<or> aiProvider config = Some []
         then failed [] (Error ''AI provider not configured. Please configure AI settings.'')
         else if currentHtml editorNodes = [] \<or> length (trim (currentHtml editorNodes)) < 50
         then failed []
                (Error ''Insufficient content for analysis. Ensure the full article is loaded.'')
         else (case detectWithFallback precision analyzeContentAndFindProduct title
                      (currentHtml editorNodes) of
                 (called, Inl e) \<Rightarrow> failed called e
               | (called, Inr d) \<Rightarrow>
                   applyDetection now config (currentHtml editorNodes) editorNodes productMap
                     called d))"

text \<open>The scan reaches its detection step: an AI provider is set and the document is long enough.\<close>

definition scan_ready :: "AppConfig \<Rightarrow> EditorNode list \<Rightarrow> bool" where
  "scan_ready config editorNodes \<longleftrightarrow>
     aiProvider config \<noteq> None \<and> aiProvider config \<noteq> Some []
     \<and> length (trim (currentHtml editorNodes)) \<ge> 50"

text \<open>
  The advanced detector gives nothing to use: there is no module, or it throws, or it
  returns no product.
\<close>

definition precision_unusable :: "precision_module \<Rightarrow> string \<Rightarrow> string \<Rightarrow> bool" where
  "precision_unusable precision title html_text \<longleftrightarrow>
     (case precision of
        None \<Rightarrow> True
      | Some detectProductsPrecision \<Rightarrow>
          (case detectProductsPrecision title html_text of
             Inl e \<Rightarrow> True
           | Inr r \<Rightarrow> pr_products r = []))"

text \<open>A document long enough to scan, a configuration, and two detectors for the examples.\<close>

definition sample_doc :: "EditorNode list" where
  "sample_doc =
     [htmlBlock ''b0'' ''<p>The Acme Kettle boils water in two minutes flat.</p>'',
      htmlBlock ''b1'' ''<p>It holds 1.7 litres and switches off by itself.</p>'']"

definition sample_config :: AppConfig where
  "sample_config = \<lparr>aiProvider = Some ''gemini'', serpApiKey = Some ''key''\<rparr>"

definition failing_precision :: precision_module where
  "failing_precision = Some (\<lambda>title html_text. Inl (Error ''stage 3 failed''))"

definition sample_legacy :: legacy_detector where
  "sample_legacy =
     (\<lambda>title html_text.
        Inr \<lparr>detectedProducts = [sample_product],
             lr_comparison = Some \<lparr>cmp_productIds = [''p1''], cmp_specs = [''Price'']\<rparr>\<rparr>)"

section \<open>Page audit: \<open>runDeepAudit\<close> (src/components/SitemapScanner.tsx, src/unnamed/part\_000)\<close>

text \<open>
  Modelled from the spec: \<open>BlogPost\<close> is declared in \<open>types.ts\<close>, which is not among the
  sources; the spec's \<open>ContentPage\<close> has an id, a url, a title, the fetched content if any,
  a priority tier, a monetization status and a page type.
\<close>

datatype PostPriority = critical | high | medium | low

datatype MonetizationStatus = opportunity | monetized | unmonetized

record BlogPost =
  bp_id :: nat
  bp_url :: string
  bp_title :: string
  bp_content :: "string option"
  bp_priority :: PostPriority
  bp_postType :: string
  bp_monetizationStatus :: MonetizationStatus

text \<open>
  What \<open>calculatePostPriority(title, content)\<close> returns. The function is in \<open>utils\<close>, outside
  the sources, as is \<open>fetchPageContent\<close>: the audit takes them as the parameters \<open>calc\<close> and
  \<open>fetch\<close>, the latter from a url to the page's content or the error it rejects with.
\<close>

record analysis =
  an_priority :: PostPriority
  an_type :: string
  an_status :: MonetizationStatus

text \<open>
  A progress report \<open>{ current, total }\<close>. The scanner's third field \<open>percentage\<close> is a
  floating-point value of the two and is left out.
\<close>

type_synonym AuditProgress = "nat \<times> nat"

subsection \<open>The scanner of SitemapScanner.tsx: posts merged under their url\<close>

text \<open>
  \<open>postMap\<close> is a \<open>Map\<close> from url to post, in insertion order; \<open>progress\<close> lists the calls
  of \<open>setAuditProgress\<close> and \<open>published\<close> the post lists handed to \<open>onStateChange\<close>, both in
  order.
\<close>

record scanner_audit =
  postMap :: "(string \<times> BlogPost) list"
  processed :: nat
  progress :: "AuditProgress list"
  published :: "BlogPost list list"

text \<open>\<open>new Map(posts.map(p => [p.url, p]))\<close>.\<close>

definition newPostMap :: "BlogPost list \<Rightarrow> (string \<times> BlogPost) list" where
  "newPostMap posts = fold (\<lambda>p m. AList.update (bp_url p) p m) posts []"

text \<open>The quick audit on the title alone, \<open>posts.forEach\<close>.\<close>

definition quickAudit ::
  "(string \<Rightarrow> string \<Rightarrow> analysis) \<Rightarrow> BlogPost list \<Rightarrow> (string \<times> BlogPost) list
     \<Rightarrow> (string \<times> BlogPost) list" where
  "quickAudit calc posts m =
     fold (\<lambda>p m. let a = calc (bp_title p) [] in
             AList.update (bp_url p)
               (p\<lparr>bp_priority := an_priority a, bp_postType := an_type a,
                  bp_monetizationStatus := an_status a\<rparr>) m)
       posts m"

text \<open>\<open>targets\<close>: the values of the map after the quick audit.\<close>

definition audit_targets :: "(string \<Rightarrow> string \<Rightarrow> analysis) \<Rightarrow> BlogPost list \<Rightarrow> BlogPost list" where
  "audit_targets calc posts = map snd (quickAudit calc posts (newPostMap posts))"

text \<open>
  The callback of \<open>runConcurrent\<close> from the point where the fetch of \<open>post\<close> settles; it
  runs without a further \<open>await\<close>, so it is one step. \<open>n\<close> is \<open>targets.length\<close>.
\<close>

definition fetchSettled ::
  "(string \<Rightarrow> string \<Rightarrow> analysis) \<Rightarrow> (string \<Rightarrow> js_error + string) \<Rightarrow> nat \<Rightarrow> BlogPost
     \<Rightarrow> scanner_audit \<Rightarrow> scanner_audit" where
  "fetchSettled calc fetch n post st =
     (let m = (case fetch (bp_url post) of
                 Inl e \<Rightarrow> postMap st
               | Inr page_content \<Rightarrow>
                   (let a = calc (bp_title post) page_content in
                    AList.update (bp_url post)
                      (post\<lparr>bp_content := Some page_content, bp_priority := an_priority a,
                            bp_monetizationStatus := an_status a, bp_postType := an_type a\<rparr>)
                      (postMap st)));
          done = processed st + 1
      in \<lparr>postMap = m, processed = done,
          progress = progress st @ [(done, n)],
          published = published st @
            (if done mod 10 = 0 \<or> done = n then [map snd m] else [])\<rparr>)"

text \<open>
  Modelled from the spec: \<open>runConcurrent\<close> is in \<open>utils\<close>, outside the sources; it runs the
  callback once for every target, at most ten at a time. \<open>order\<close> is the order in which the
  fetches settle, an arrangement of the targets.

  The whole of \<open>runDeepAudit\<close>: the first progress report and the quick audit, the
  callbacks in the order of settling, the last \<open>onStateChange\<close> and the reset of the
  progress.
\<close>

definition runDeepAudit_scanner ::
  "(string \<Rightarrow> string \<Rightarrow> analysis) \<Rightarrow> (string \<Rightarrow> js_error + string) \<Rightarrow> BlogPost list
     \<Rightarrow> BlogPost list \<Rightarrow> scanner_audit" where
  "runDeepAudit_scanner calc fetch posts order =
     (let m0 = quickAudit calc posts (newPostMap posts);
          targets = map snd m0;
          st0 = \<lparr>postMap = m0, processed = 0, progress = [(0, length posts)],
                 published = [map snd m0]\<rparr>;
          st1 = fold (fetchSettled calc fetch (length targets)) order st0
      in st1\<lparr>progress := progress st1 @ [(0, 0)],
             published := published st1 @ [map snd (postMap st1)]\<rparr>)"

text \<open>The posts of the last \<open>onStateChange\<close>: the final merged state.\<close>

definition scanner_result :: "scanner_audit \<Rightarrow> BlogPost list" where
  "scanner_result st = map snd (postMap st)"

subsection \<open>The scanner of part\_000: posts merged under their index, in batches\<close>

record batch_audit =
  updatedPosts :: "BlogPost list"
  completed :: nat
  audit_progress :: "AuditProgress list"

text \<open>
  \<open>Math.min(config.concurrencyLimit || 3, 5)\<close>, for a limit that is a whole number, not
  negative.
\<close>

definition concurrency :: "nat option \<Rightarrow> nat" where
  "concurrency concurrencyLimit =
     min (case concurrencyLimit of None \<Rightarrow> 3 | Some l \<Rightarrow> if l = 0 then 3 else l) 5"

text \<open>
  \<open>processPost(index)\<close> from the point where its fetch settles. \<open>post\<close> is what the call
  read from \<open>updatedPosts[index]\<close> before the fetch, when its batch started; \<open>n\<close> is
  \<open>postsToAudit.length\<close>.
\<close>

definition processPost_settled ::
  "(string \<Rightarrow> string \<Rightarrow> analysis) \<Rightarrow> (string \<Rightarrow> js_error + string) \<Rightarrow> nat \<Rightarrow> BlogPost list
     \<Rightarrow> nat \<Rightarrow> batch_audit \<Rightarrow> batch_audit" where
  "processPost_settled calc fetch n started index st =
     (let post = started ! index;
          posts' = (case fetch (bp_url post) of
                      Inl e \<Rightarrow> updatedPosts st
                    | Inr page_content \<Rightarrow>
                        (let a = calc (bp_title post) page_content in
                         (updatedPosts st)
                           [index := post\<lparr>bp_priority := an_priority a, bp_postType := an_type a,
                                          bp_monetizationStatus := an_status a\<rparr>]))
      in \<lparr>updatedPosts = posts', completed = completed st + 1,
          audit_progress = audit_progress st @ [(completed st + 1, n)]\<rparr>)"

text \<open>
  One batch: the calls \<open>processPost(j)\<close> for the indices of the batch all start, each
  reading its post, and \<open>Promise.all\<close> waits for them; \<open>settling\<close> arranges the indices of a
  batch in the order in which their fetches settle.
\<close>

definition runBatch ::
  "(string \<Rightarrow> string \<Rightarrow> analysis) \<Rightarrow> (string \<Rightarrow> js_error + string) \<Rightarrow> nat
     \<Rightarrow> (nat list \<Rightarrow> nat list) \<Rightarrow> nat list \<Rightarrow> batch_audit \<Rightarrow> batch_audit" where
  "runBatch calc fetch n settling batch st =
     fold (processPost_settled calc fetch n (updatedPosts st)) (settling batch) st"

text \<open>
  The loop \<open>for (let i = 0; i < postsToAudit.length; i += concurrency)\<close>. The conjunct
  \<open>0 < conc\<close> makes the recursion total; the audit calls the loop with a concurrency
  between 1 and 5.
\<close>

function auditBatches ::
  "(string \<Rightarrow> string \<Rightarrow> analysis) \<Rightarrow> (string \<Rightarrow> js_error + string) \<Rightarrow> nat
     \<Rightarrow> (nat list \<Rightarrow> nat list) \<Rightarrow> nat \<Rightarrow> nat \<Rightarrow> batch_audit \<Rightarrow> batch_audit" where
  "auditBatches calc fetch n settling conc i st =
     (if i < n \<and> 0 < conc
      then auditBatches calc fetch n settling conc (i + conc)
             (runBatch calc fetch n settling [i ..< min (i + conc) n] st)
      else st)"
  by pat_completeness auto
termination
  by (relation "measure (\<lambda>(calc, fetch, n, settling, conc, i, st). n - i)") auto

declare auditBatches.simps [simp del]

text \<open>
  The whole of \<open>runDeepAudit\<close>; \<open>None\<close> is the return at once on an empty list, with no
  report and no \<open>setPosts\<close>.
\<close>

definition runDeepAudit_batches ::
  "(string \<Rightarrow> string \<Rightarrow> analysis) \<Rightarrow> (string \<Rightarrow> js_error + string) \<Rightarrow> nat option
     \<Rightarrow> (nat list \<Rightarrow> nat list) \<Rightarrow> BlogPost list \<Rightarrow> batch_audit option" where
  "runDeepAudit_batches calc fetch concurrencyLimit settling postsToAudit =
     (if length postsToAudit = 0 then None
      else Some (auditBatches calc fetch (length postsToAudit) settling
                   (concurrency concurrencyLimit) 0
                   \<lparr>updatedPosts = postsToAudit, completed = 0,
                    audit_progress = [(0, length postsToAudit)]\<rparr>))"


text \<open>An order of settling is fair: it arranges the indices of a batch, all of them, once each.\<close>

definition arranges :: "(nat list \<Rightarrow> nat list) \<Rightarrow> bool" where
  "arranges settling \<longleftrightarrow> (\<forall>batch. mset (settling batch) = mset batch)"

text \<open>Sample pages, a classifier by length and a fetch that fails on one url.\<close>

definition sample_post :: "nat \<Rightarrow> string \<Rightarrow> BlogPost" where
  "sample_post i u =
     \<lparr>bp_id = i, bp_url = u, bp_title = ''Best kettles'', bp_content = None,
      bp_priority = low, bp_postType = ''post'', bp_monetizationStatus = unmonetized\<rparr>"

definition sample_calc :: "string \<Rightarrow> string \<Rightarrow> analysis" where
  "sample_calc t c =
     \<lparr>an_priority = (if length c > 3 then high else medium), an_type = ''review'',
      an_status = opportunity\<rparr>"

definition sample_fetch :: "string \<Rightarrow> js_error + string" where
  "sample_fetch u = (if u = ''/b'' then Inl (Error ''timeout'') else Inr (''page '' @ u))"

definition sample_posts :: "BlogPost list" where
  "sample_posts = [sample_post 1 ''/a'', sample_post 2 ''/b'', sample_post 3 ''/c'']"

text \<open>
  What a settled fetch writes into the map: nothing when the fetch failed, the fetched and
  classified post under the post's url when it succeeded.
\<close>

definition mergeFetched ::
  "(string \<Rightarrow> string \<Rightarrow> analysis) \<Rightarrow> (string \<Rightarrow> js_error + string) \<Rightarrow> BlogPost
     \<Rightarrow> (string \<times> BlogPost) list \<Rightarrow> (string \<times> BlogPost) list" where
  "mergeFetched calc fetch post m =
     (case fetch (bp_url post) of
        Inl e \<Rightarrow> m
      | Inr page_content \<Rightarrow>
          (let a = calc (bp_title post) page_content in
           AList.update (bp_url post)
             (post\<lparr>bp_content := Some page_content, bp_priority := an_priority a,
                   bp_monetizationStatus := an_status a, bp_postType := an_type a\<rparr>) m))"

text \<open>The same writes on the partial function of the map, where they commute.\<close>

definition writeFetched ::
  "(string \<Rightarrow> string \<Rightarrow> analysis) \<Rightarrow> (string \<Rightarrow> js_error + string) \<Rightarrow> BlogPost
     \<Rightarrow> (string \<rightharpoonup> BlogPost) \<Rightarrow> (string \<rightharpoonup> BlogPost)" where
  "writeFetched calc fetch post f =
     (case fetch (bp_url post) of
        Inl e \<Rightarrow> f
      | Inr page_content \<Rightarrow>
          (let a = calc (bp_title post) page_content in
           f(bp_url post \<mapsto>
             post\<lparr>bp_content := Some page_content, bp_priority := an_priority a,
                   bp_monetizationStatus := an_status a, bp_postType := an_type a\<rparr>)))"

section \<open>Verified properties\<close>

subsection \<open>Result cache\<close>

lemmas cache_defs =
  cache_get_def cache_get_try_def cache_set_def cache_set_try_def cache_delete_def
  cache_clear_def cache_clear_try_def getItem_def setItem_def removeItem_def Object_keys_def
  try_catch_def




text \<open>
  Claim C10. No operation of the cache throws (its promise is never rejected): each one
  returns a result in every storage state. A \<open>get\<close> returns \<open>null\<close> and leaves the storage
  alone when the storage cannot be read, when the key is missing and when the stored text
  is not JSON; a \<open>set\<close> whose write or serialisation fails, and a \<open>delete\<close> or \<open>clear\<close> on a
  storage that cannot be touched, return normally with the storage unchanged.
\<close>

theorem cache_never_throws:
  "(\<exists>r. cache_get now s key = Inr r)
   \<and> (\<exists>s'. cache_set now s key val ttl = Inr s')
   \<and> (\<exists>s'. cache_delete s key = Inr s')
   \<and> (\<exists>s'. cache_clear s = Inr s')
   \<and> (\<not> accessible s \<longrightarrow> cache_get now s key = Inr (Null, s))
   \<and> (accessible s \<longrightarrow> map_of (items s) key = None \<longrightarrow> cache_get now s key = Inr (Null, s))
   \<and> (accessible s \<longrightarrow> map_of (items s) key = Some Malformed \<longrightarrow>
        cache_get now s key = Inr (Null, s))
   \<and> (\<not> accessible s \<or> \<not> has_quota s \<or> val = Circular \<longrightarrow>
        cache_set now s key val ttl = Inr s)
   \<and> (\<not> accessible s \<longrightarrow> cache_delete s key = Inr s \<and> cache_clear s = Inr s)"
proof -
  have clear_total: "\<exists>s'. forEach_removeItem ks s = Inr s'" if "accessible s" for ks
    using that by (induction ks arbitrary: s) (auto simp: removeItem_def)
  have "\<exists>s'. cache_clear s = Inr s'"
    using clear_total
    by (cases "accessible s") (auto simp: cache_defs split: sum.splits)
  moreover have "\<exists>r. cache_get now s key = Inr r"
    by (auto simp: cache_get_def try_catch_def split: sum.splits)
  moreover have "\<exists>s'. cache_set now s key val ttl = Inr s'"
    by (auto simp: cache_set_def try_catch_def split: sum.splits)
  moreover have "\<exists>s'. cache_delete s key = Inr s'"
    by (auto simp: cache_delete_def try_catch_def split: sum.splits)
  moreover have "\<not> accessible s \<longrightarrow> cache_get now s key = Inr (Null, s)"
    by (simp add: cache_defs)
  moreover have "accessible s \<longrightarrow> map_of (items s) key = None \<longrightarrow>
      cache_get now s key = Inr (Null, s)"
    by (simp add: cache_defs)
  moreover have "accessible s \<longrightarrow> map_of (items s) key = Some Malformed \<longrightarrow>
      cache_get now s key = Inr (Null, s)"
    by (simp add: cache_defs)
  moreover have "\<not> accessible s \<or> \<not> has_quota s \<or> val = Circular \<longrightarrow>
      cache_set now s key val ttl = Inr s"
    by (cases val) (auto simp: cache_defs Let_def)
  moreover have "\<not> accessible s \<longrightarrow> cache_delete s key = Inr s \<and> cache_clear s = Inr s"
    by (simp add: cache_defs)
  ultimately show ?thesis by blast
qed

theorem cache_never_throws_witness:
  "cache_get 5 \<lparr>items = [(''ai:x'', Encoded (1::nat) None)], accessible = False, has_quota = True\<rparr> ''ai:x''
     = Inr (Null, \<lparr>items = [(''ai:x'', Encoded 1 None)], accessible = False, has_quota = True\<rparr>)
   \<and> cache_get 5 \<lparr>items = [(''ai:x'', Malformed :: nat raw_item)], accessible = True, has_quota = True\<rparr> ''ai:y''
     = Inr (Null, \<lparr>items = [(''ai:x'', Malformed)], accessible = True, has_quota = True\<rparr>)
   \<and> cache_get 5 \<lparr>items = [(''ai:x'', Malformed :: nat raw_item)], accessible = True, has_quota = True\<rparr> ''ai:x''
     = Inr (Null, \<lparr>items = [(''ai:x'', Malformed)], accessible = True, has_quota = True\<rparr>)
   \<and> cache_set 5 \<lparr>items = [], accessible = True, has_quota = False\<rparr> ''ai:x'' (Plain (1::nat)) None
     = Inr \<lparr>items = [], accessible = True, has_quota = False\<rparr>
   \<and> cache_delete \<lparr>items = [(''ai:x'', Encoded (1::nat) None)], accessible = False, has_quota = True\<rparr> ''ai:x''
     = Inr \<lparr>items = [(''ai:x'', Encoded 1 None)], accessible = False, has_quota = True\<rparr>
   \<and> cache_clear \<lparr>items = [(''ai:x'', Encoded (1::nat) None)], accessible = False, has_quota = True\<rparr>
     = Inr \<lparr>items = [(''ai:x'', Encoded 1 None)], accessible = False, has_quota = True\<rparr>"
  using
    cache_never_throws [of 5 "\<lparr>items = [(''ai:x'', Encoded (1::nat) None)], accessible = False, has_quota = True\<rparr>"
      "''ai:x''" "Plain 1" None]
    cache_never_throws [of 5 "\<lparr>items = [(''ai:x'', Malformed :: nat raw_item)], accessible = True, has_quota = True\<rparr>"
      "''ai:y''" "Plain 1" None]
    cache_never_throws [of 5 "\<lparr>items = [(''ai:x'', Malformed :: nat raw_item)], accessible = True, has_quota = True\<rparr>"
      "''ai:x''" "Plain 1" None]
    cache_never_throws [of 5 "\<lparr>items = [], accessible = True, has_quota = False\<rparr>" "''ai:x''" "Plain (1::nat)" None]
  by simp

subsection \<open>Request deduplicator\<close>

lemma pending_exactD1: "pending_exact st \<Longrightarrow> in_flight st k p \<Longrightarrow> map_of (pending st) k = Some p"
  unfolding pending_exact_def by blast

lemma pending_exactD2: "pending_exact st \<Longrightarrow> map_of (pending st) k = Some p \<Longrightarrow> in_flight st k p"
  unfolding pending_exact_def by blast

lemma pending_exact_initial: "pending_exact initial"
  by (simp add: pending_exact_def initial_def in_flight_def)

lemma pending_exact_call:
  assumes "pending_exact st"
  shows "pending_exact (snd (deduplicateRequest key st))"
proof (cases "map_of (pending st) key")
  case (Some p)
  then show ?thesis using assms by (simp add: deduplicateRequest_def)
next
  case None
  define n where "n = length (promises st)"
  define st' where "st' = snd (deduplicateRequest key st)"
  have pr: "promises st' = promises st @ [(key, InFlight)]"
    and pe: "map_of (pending st') = (map_of (pending st))(key \<mapsto> n)"
    using None by (simp_all add: st'_def n_def deduplicateRequest_def factory_call_def update_conv')
  have nokey: "\<not> in_flight st key p" for p
    using pending_exactD1[OF assms, of key p] None by auto
  have "map_of (pending st') k = Some p \<longleftrightarrow> in_flight st' k p" for k p
  proof (cases "k = key")
    case True
    have "in_flight st' key p \<longleftrightarrow> p = n"
      using nokey[of p] by (auto simp: in_flight_def pr n_def nth_append)
    then show ?thesis using True by (auto simp: pe)
  next
    case False
    have "in_flight st' k p \<longleftrightarrow> in_flight st k p"
      using False by (auto simp: in_flight_def pr nth_append)
    moreover have "map_of (pending st) k = Some p \<longleftrightarrow> in_flight st k p"
      using pending_exactD1[OF assms] pending_exactD2[OF assms] by blast
    ultimately show ?thesis using False by (simp add: pe)
  qed
  then show ?thesis unfolding pending_exact_def st'_def by blast
qed

lemma pending_exact_settle:
  assumes "pending_exact st"
  shows "pending_exact (settle p r st)"
proof (cases "p < length (promises st) \<and> snd (promises st ! p) = InFlight")
  case False
  then show ?thesis using assms by (auto simp: settle_def)
next
  case True
  define k0 where "k0 = fst (promises st ! p)"
  define st' where "st' = settle p r st"
  have pr: "promises st' = (promises st)[p := (k0, Settled r)]"
    and pe: "map_of (pending st') = (map_of (pending st))(k0 := None)"
    using True by (simp_all add: st'_def k0_def settle_def delete_conv')
  have fl: "in_flight st k0 p"
    using True by (simp add: in_flight_def k0_def prod_eq_iff)
  have uniq: "q = p" if "in_flight st k0 q" for q
    using pending_exactD1[OF assms that] pending_exactD1[OF assms fl] by simp
  have "map_of (pending st') k = Some q \<longleftrightarrow> in_flight st' k q" for k q
  proof -
    have old: "map_of (pending st) k = Some q \<longleftrightarrow> in_flight st k q"
      using pending_exactD1[OF assms] pending_exactD2[OF assms] by blast
    have "in_flight st' k q \<longleftrightarrow> q \<noteq> p \<and> in_flight st k q"
      using True by (auto simp: in_flight_def pr nth_list_update)
    also have "\<dots> \<longleftrightarrow> k \<noteq> k0 \<and> in_flight st k q"
    proof (cases "in_flight st k q")
      case False
      then show ?thesis by simp
    next
      case kq: True
      have "q = p \<longleftrightarrow> k = k0"
      proof
        assume "q = p"
        with kq fl show "k = k0" by (simp add: in_flight_def)
      next
        assume "k = k0"
        with kq uniq show "q = p" by blast
      qed
      then show ?thesis by blast
    qed
    finally show ?thesis using old by (auto simp: pe)
  qed
  then show ?thesis unfolding pending_exact_def st'_def by blast
qed

lemma pending_exact_step: "pending_exact st \<Longrightarrow> pending_exact (step ev st)"
  by (cases ev) (simp_all add: pending_exact_call pending_exact_settle)

lemma pending_exact_fold: "pending_exact st \<Longrightarrow> pending_exact (fold step evs st)"
  by (induction evs arbitrary: st) (simp_all add: pending_exact_step)

lemma pending_exact_run: "pending_exact (run evs initial)"
  by (simp add: run_def pending_exact_fold pending_exact_initial)

lemma settled_step:
  "p < length (promises st) \<Longrightarrow> promises st ! p = (k, Settled r) \<Longrightarrow>
   p < length (promises (step ev st)) \<and> promises (step ev st) ! p = (k, Settled r)"
  by (cases ev)
     (auto simp: deduplicateRequest_def factory_call_def settle_def nth_append nth_list_update
           split: option.splits)

lemma settled_fold:
  "p < length (promises st) \<Longrightarrow> promises st ! p = (k, Settled r) \<Longrightarrow>
   p < length (promises (fold step evs st)) \<and> promises (fold step evs st) ! p = (k, Settled r)"
proof (induction evs arbitrary: st)
  case Nil then show ?case by simp
next
  case (Cons ev evs)
  from settled_step[OF Cons.prems, of ev] show ?case
    using Cons.IH by simp
qed

text \<open>
  Claim C4. In every state that a sequence of calls and settlements reaches: at most one
  promise is in flight for a key; a call for a key with a promise in flight returns that
  promise and invokes no factory (the state, and with it the list of invocations, is
  unchanged); a call for a key with none in flight invokes the factory once and registers
  its promise; and when the promise in flight for a key settles, the key's entry is
  removed, and the promise keeps its one outcome, which is what every caller holding it
  observes, whatever happens later.
\<close>

theorem dedup_single_flight:
  assumes "st = run evs initial"
  shows "(\<forall>p q. in_flight st key p \<and> in_flight st key q \<longrightarrow> p = q)
    \<and> (\<forall>p. in_flight st key p \<longrightarrow> deduplicateRequest key st = (p, st))
    \<and> ((\<forall>p. \<not> in_flight st key p) \<longrightarrow>
          deduplicateRequest key st =
            (length (promises st),
             st\<lparr>promises := promises st @ [(key, InFlight)],
                pending := AList.update key (length (promises st)) (pending st)\<rparr>))
    \<and> (\<forall>p r. in_flight st key p \<longrightarrow>
          map_of (pending (settle p r st)) key = None
          \<and> (\<forall>later. promises (run later (settle p r st)) ! p = (key, Settled r)))"
proof -
  have pe: "pending_exact st" using assms pending_exact_run by simp
  have a: "\<forall>p q. in_flight st key p \<and> in_flight st key q \<longrightarrow> p = q"
    using pe unfolding pending_exact_def by (metis option.inject)
  have b: "\<forall>p. in_flight st key p \<longrightarrow> deduplicateRequest key st = (p, st)"
    using pending_exactD1[OF pe] by (auto simp: deduplicateRequest_def)
  have "map_of (pending st) key = None" if "\<forall>p. \<not> in_flight st key p"
    using pe that unfolding pending_exact_def by (cases "map_of (pending st) key") auto
  then have c: "(\<forall>p. \<not> in_flight st key p) \<longrightarrow>
          deduplicateRequest key st =
            (length (promises st),
             st\<lparr>promises := promises st @ [(key, InFlight)],
                pending := AList.update key (length (promises st)) (pending st)\<rparr>)"
    by (auto simp: deduplicateRequest_def factory_call_def)
  have d: "map_of (pending (settle p r st)) key = None
          \<and> (\<forall>later. promises (run later (settle p r st)) ! p = (key, Settled r))"
    if fl: "in_flight st key p" for p r
  proof
    show "map_of (pending (settle p r st)) key = None"
      using fl by (simp add: settle_def in_flight_def delete_conv')
    have "p < length (promises (settle p r st))" "promises (settle p r st) ! p = (key, Settled r)"
      using fl by (simp_all add: settle_def in_flight_def)
    then show "\<forall>later. promises (run later (settle p r st)) ! p = (key, Settled r)"
      unfolding run_def by (blast dest: settled_fold)
  qed
  from d have d': "\<forall>p r. in_flight st key p \<longrightarrow>
          map_of (pending (settle p r st)) key = None
          \<and> (\<forall>later. promises (run later (settle p r st)) ! p = (key, Settled r))"
    by (intro allI impI)
  show ?thesis
    by (intro conjI) (rule a, rule b, rule c, rule d')
qed

theorem dedup_single_flight_witness:
  "run [Call ''u''] initial = \<lparr>pending = [(''u'', 0)], promises = [(''u'', InFlight :: nat promise_state)]\<rparr>
   \<and> in_flight \<lparr>pending = [(''u'', 0)], promises = [(''u'', InFlight :: nat promise_state)]\<rparr> ''u'' 0
   \<and> deduplicateRequest ''u'' \<lparr>pending = [(''u'', 0)], promises = [(''u'', InFlight :: nat promise_state)]\<rparr>
       = (0, \<lparr>pending = [(''u'', 0)], promises = [(''u'', InFlight)]\<rparr>)
   \<and> deduplicateRequest ''v'' \<lparr>pending = [(''u'', 0)], promises = [(''u'', InFlight :: nat promise_state)]\<rparr>
       = (1, \<lparr>pending = [(''u'', 0), (''v'', 1)], promises = [(''u'', InFlight), (''v'', InFlight)]\<rparr>)
   \<and> settle 0 (Fulfilled 5) \<lparr>pending = [(''u'', 0)], promises = [(''u'', InFlight :: nat promise_state)]\<rparr>
       = \<lparr>pending = [], promises = [(''u'', Settled (Fulfilled 5))]\<rparr>
   \<and> promises (run [Call ''u'']
         (settle 0 (Fulfilled 5) \<lparr>pending = [(''u'', 0)], promises = [(''u'', InFlight :: nat promise_state)]\<rparr>)) ! 0
       = (''u'', Settled (Fulfilled 5))"
  using dedup_single_flight
    [of "\<lparr>pending = [(''u'', 0)], promises = [(''u'', InFlight :: nat promise_state)]\<rparr>" "[Call ''u'']" "''u''"]
  by (simp add: run_def initial_def deduplicateRequest_def factory_call_def settle_def in_flight_def)

subsection \<open>Copy enhancement\<close>

lemma dropWhile_notin: "x \<notin> set pre \<Longrightarrow> dropWhile (\<lambda>c. c \<noteq> x) (pre @ x # rest) = x # rest"
  by (induction pre) auto

lemma extractJSON_span:
  assumes "CHR ''{'' \<notin> set pre" and "CHR ''}'' \<notin> set post"
  shows "extractJSON (pre @ CHR ''{'' # mid @ CHR ''}'' # post) = CHR ''{'' # mid @ [CHR ''}'']"
proof -
  have 1: "dropWhile (\<lambda>c. c \<noteq> CHR ''{'') (pre @ CHR ''{'' # mid @ CHR ''}'' # post)
      = CHR ''{'' # mid @ CHR ''}'' # post"
    using assms(1) by (rule dropWhile_notin)
  have "rev (mid @ CHR ''}'' # post) = rev post @ CHR ''}'' # rev mid" by simp
  moreover have "CHR ''}'' \<notin> set (rev post)" using assms(2) by simp
  ultimately have 2:
    "dropWhile (\<lambda>c. c \<noteq> CHR ''}'') (rev (mid @ CHR ''}'' # post)) = CHR ''}'' # rev mid"
    using dropWhile_notin by metis
  show ?thesis
    unfolding extractJSON_def 1 Let_def using 2 by simp
qed

lemma extractJSON_no_open:
  assumes "CHR ''{'' \<notin> set text"
  shows "extractJSON text = ''{}''"
proof -
  have "dropWhile (\<lambda>c. c \<noteq> CHR ''{'') text = []"
    using assms by (auto simp: dropWhile_eq_Nil_conv)
  then show ?thesis by (simp add: extractJSON_def)
qed

lemma extractJSON_no_close:
  assumes "CHR ''{'' \<notin> set pre" and "CHR ''}'' \<notin> set post"
  shows "extractJSON (pre @ CHR ''{'' # post) = ''{}''"
proof -
  have 1: "dropWhile (\<lambda>c. c \<noteq> CHR ''{'') (pre @ CHR ''{'' # post) = CHR ''{'' # post"
    using assms(1) by (rule dropWhile_notin)
  have 2: "dropWhile (\<lambda>c. c \<noteq> CHR ''}'') (rev post) = []"
    using assms(2) by (auto simp: dropWhile_eq_Nil_conv)
  show ?thesis unfolding extractJSON_def 1 Let_def using 2 by simp
qed

text \<open>
  Claim C9, as amended. \<open>extractJSON\<close> returns the text from the first \<open>{\<close> through the
  last \<open>}\<close> (and \<open>{}\<close> when no \<open>{\<close> is followed by a \<open>}\<close>); \<open>enhanceProductCopy\<close> always
  resolves to an \<open>EnhancedCopy\<close>, and when the AI call fails or the extracted text does not
  parse it resolves to the copy built from the product's own fields and the fixed defaults.
\<close>

theorem enhanceProductCopy_total:
  "(\<exists>copy. enhanceProductCopy parse product response = Inr copy)
   \<and> (\<forall>e. response = Inl e \<longrightarrow>
         enhanceProductCopy parse product response = Inr (defaultCopy product))
   \<and> (\<forall>text e. response = Inr text \<longrightarrow> parse (extractJSON text) = Inl e \<longrightarrow>
         enhanceProductCopy parse product response = Inr (defaultCopy product))
   \<and> (\<forall>pre mid post. CHR ''{'' \<notin> set pre \<longrightarrow> CHR ''}'' \<notin> set post \<longrightarrow>
         extractJSON (pre @ CHR ''{'' # mid @ CHR ''}'' # post) = CHR ''{'' # mid @ [CHR ''}''])
   \<and> (\<forall>text. CHR ''{'' \<notin> set text \<longrightarrow> extractJSON text = ''{}'')
   \<and> (\<forall>pre post. CHR ''{'' \<notin> set pre \<longrightarrow> CHR ''}'' \<notin> set post \<longrightarrow>
         extractJSON (pre @ CHR ''{'' # post) = ''{}'')"
proof -
  have "\<exists>copy. enhanceProductCopy parse product response = Inr copy"
    by (auto simp: enhanceProductCopy_def try_catch_def split: sum.splits)
  moreover have "\<forall>e. response = Inl e \<longrightarrow>
      enhanceProductCopy parse product response = Inr (defaultCopy product)"
    by (simp add: enhanceProductCopy_def enhanceProductCopy_try_def try_catch_def)
  moreover have "\<forall>text e. response = Inr text \<longrightarrow> parse (extractJSON text) = Inl e \<longrightarrow>
      enhanceProductCopy parse product response = Inr (defaultCopy product)"
    by (simp add: enhanceProductCopy_def enhanceProductCopy_try_def try_catch_def)
  moreover have "\<forall>pre mid post. CHR ''{'' \<notin> set pre \<longrightarrow> CHR ''}'' \<notin> set post \<longrightarrow>
      extractJSON (pre @ CHR ''{'' # mid @ CHR ''}'' # post) = CHR ''{'' # mid @ [CHR ''}'']"
    using extractJSON_span by blast
  moreover have "\<forall>text. CHR ''{'' \<notin> set text \<longrightarrow> extractJSON text = ''{}''"
    using extractJSON_no_open by blast
  moreover have "\<forall>pre post. CHR ''{'' \<notin> set pre \<longrightarrow> CHR ''}'' \<notin> set post \<longrightarrow>
      extractJSON (pre @ CHR ''{'' # post) = ''{}''"
    using extractJSON_no_close by blast
  ultimately show ?thesis by blast
qed

theorem enhanceProductCopy_total_witness:
  "extractJSON ''Sure: {oops} done'' = ''{oops}''
   \<and> JSON_parse_sample ''{oops}'' = Inl SyntaxError
   \<and> enhanceProductCopy JSON_parse_sample sample_product (Inr ''Sure: {oops} done'')
       = Inr \<lparr>verdict = JStr ''Boils fast'', headline = JStr ''Acme Kettle'',
              bulletPoints = [JStr ''1.7 litres''], callToAction = JStr ''Check Price on Amazon'',
              faqs = [], urgencyHook = JStr ''''\<rparr>
   \<and> enhanceProductCopy JSON_parse_sample sample_product (Inl (Error ''timeout''))
       = Inr \<lparr>verdict = JStr ''Boils fast'', headline = JStr ''Acme Kettle'',
              bulletPoints = [JStr ''1.7 litres''], callToAction = JStr ''Check Price on Amazon'',
              faqs = [], urgencyHook = JStr ''''\<rparr>
   \<and> extractJSON ''no braces'' = ''{}''
   \<and> extractJSON ''open { only'' = ''{}''"
  using enhanceProductCopy_total [of JSON_parse_sample sample_product "Inr ''Sure: {oops} done''"]
    enhanceProductCopy_total [of JSON_parse_sample sample_product "Inl (Error ''timeout'')"]
  by (simp add: extractJSON_def JSON_parse_sample_def sample_product_def defaultCopy_def
        str_or_def product_claims_def product_faqs_def)

text \<open>
  Claim C9 as stated fails on a reply that holds a JSON object and a later brace pair: the
  greedy pattern takes everything from the first \<open>{\<close> to the last \<open>}\<close>, which is not the
  first JSON object and does not parse, so the headline that the first object carries (and
  that parsing it alone would have given) is dropped for the product's title.
\<close>

theorem extractJSON_first_object_counterexample:
  "extractJSON ''{\"headline\":\"Best\"} {}'' = ''{\"headline\":\"Best\"} {}''
   \<and> extractJSON ''{\"headline\":\"Best\"} {}'' \<noteq> ''{\"headline\":\"Best\"}''
   \<and> JSON_parse_sample ''{\"headline\":\"Best\"} {}'' = Inl SyntaxError
   \<and> JSON_parse_sample ''{\"headline\":\"Best\"}'' = Inr (JObj [(''headline'', JStr ''Best'')])
   \<and> copyFromParsed (JObj [(''headline'', JStr ''Best'')]) sample_product
       = Inr \<lparr>verdict = JStr ''Boils fast'', headline = JStr ''Best'',
              bulletPoints = [JStr ''1.7 litres''], callToAction = JStr ''Check Price on Amazon'',
              faqs = [], urgencyHook = JStr ''''\<rparr>
   \<and> enhanceProductCopy JSON_parse_sample sample_product (Inr ''{\"headline\":\"Best\"} {}'')
       = Inr \<lparr>verdict = JStr ''Boils fast'', headline = JStr ''Acme Kettle'',
              bulletPoints = [JStr ''1.7 litres''], callToAction = JStr ''Check Price on Amazon'',
              faqs = [], urgencyHook = JStr ''''\<rparr>"
  by (simp add: extractJSON_def JSON_parse_sample_def sample_product_def defaultCopy_def
        str_or_def product_claims_def product_faqs_def enhanceProductCopy_def
        enhanceProductCopy_try_def try_catch_def copyFromParsed_def json_or_def)

subsection \<open>Relevance engine\<close>

text \<open>The two tables of \<open>toLowerCase\<close> pair every capital with the code unit 32 above it.\<close>

lemma lower_case_offset:
  "length upper_case = 56 \<and> distinct upper_case
   \<and> (\<forall>ul \<in> set (zip upper_case lower_case). of_char (snd ul) = (of_char (fst ul) :: int) + 32)"
  by code_simp

lemma fold_add_ten:
  "fold (\<lambda>w sc. if P w then sc + 10 else sc) ws (score :: int)
     = score + 10 * int (length (filter P ws))"
  by (induction ws arbitrary: score) simp_all

lemma exactMention_step_eq:
  "exactMention_step (toLowerCase text) product score
     = score + (case mention_share text product of
                  None \<Rightarrow> 0
                | Some share \<Rightarrow> if share > 7 / 10 then 1000 else 0)"
proof (cases "p_exactMention product")
  case None
  then show ?thesis by (simp add: exactMention_step_def mention_share_def)
next
  case (Some mention)
  show ?thesis
  proof (cases "significant_words (toLowerCase mention) = []")
    case True
    then show ?thesis
      using Some by (simp add: exactMention_step_def mention_share_def)
  next
    case False
    then have "mention \<noteq> []"
      by (auto simp: significant_words_def toLowerCase_def)
    then show ?thesis
      using Some False by (simp add: exactMention_step_def mention_share_def Let_def)
  qed
qed

lemma computeScore_eq: "computeScore text product = amended_score text product"
proof -
  have brand: "brand_step (toLowerCase text) product score
      = score + (if contains_brand text product then 50 else 0)" for score
    by (cases "p_brand product")
       (simp_all add: brand_step_def contains_brand_def Let_def toLowerCase_def)
  have title: "title_step (toLowerCase text) product score
      = score + (if contains_title text product then 100 else 0)" for score
    by (simp add: title_step_def contains_title_def)
  have words: "title_words_step (toLowerCase text) product score
      = score + 10 * int (title_words_present text product)" for score
    by (simp add: title_words_step_def title_words_present_def fold_add_ten)
  show ?thesis
    unfolding computeScore_def amended_score_def score_sum_def Let_def
      exactMention_step_eq title brand words short_text_step_def
    by simp
qed

text \<open>
  Claim C1, as amended. A score that \<open>calculateRelevance\<close> computes (its memo cache holds
  nothing under the key of the block's first 100 characters and the candidate's id) is the
  sum of: 1000 if more than 70% of the significant words of the exact-mention text occur
  in the lowered block, 100 if the block contains the lowered title, 50 if it contains the
  lowered brand, 10 for each significant title word present, and \<open>-10\<close> if the block is
  shorter than 50 characters and the sum so far is below 50. A score stored under the key
  is returned as it is.
\<close>

theorem calculateRelevance_amended:
  "(map_of cache (cacheKey text product) = None \<longrightarrow>
      fst (calculateRelevance text product cache) = amended_score text product)
   \<and> (\<forall>cached. map_of cache (cacheKey text product) = Some cached \<longrightarrow>
         calculateRelevance text product cache = (cached, cache))"
  by (simp add: calculateRelevance_def Let_def computeScore_eq)

theorem calculateRelevance_amended_witness:
  "map_of ([] :: relevance_cache) (cacheKey ''The Acme Kettle boils'' sample_product) = None
   \<and> amended_score ''The Acme Kettle boils'' sample_product = 170
   \<and> fst (calculateRelevance ''The Acme Kettle boils'' sample_product []) = 170
   \<and> calculateRelevance ''The Acme Kettle boils'' sample_product
         [(''The Acme Kettle boils_p1'', 5)] = (5, [(''The Acme Kettle boils_p1'', 5)])
   \<and> significant_words (toLowerCase (''Super'' @ [CHR 0xA0] @ ''Kettle'')) = [''super'', ''kettle'']
   \<and> fst (calculateRelevance ''my kettle''
            (candidate ''p3'' (''Super'' @ [CHR 0xA0] @ ''Kettle'') None None) []) = 0
   \<and> toLowerCase (CHR 0xC9 # ''CLAIR'') = CHR 0xE9 # ''clair''
   \<and> fst (calculateRelevance (''un '' @ [CHR 0xE9] @ ''clair'')
            (candidate ''p4'' (CHR 0xC9 # ''clair'') None None) []) = 110
   \<and> split_spaces ('' a'' @ [CHR 0x09, CHR 0xA0] @ ''b '') = [[], ''a'', ''b'', []]"
proof -
  have miss: "map_of ([] :: relevance_cache) k = None" for k
    by simp
  have hit: "map_of [(''The Acme Kettle boils_p1'', 5 :: int)]
      (cacheKey ''The Acme Kettle boils'' sample_product) = Some 5"
    by code_simp
  have sums: "amended_score ''The Acme Kettle boils'' sample_product = 170"
    "amended_score ''my kettle'' (candidate ''p3'' (''Super'' @ [CHR 0xA0] @ ''Kettle'') None None) = 0"
    "amended_score (''un '' @ [CHR 0xE9] @ ''clair'')
       (candidate ''p4'' (CHR 0xC9 # ''clair'') None None) = 110"
    by code_simp+
  have strings: "significant_words (toLowerCase (''Super'' @ [CHR 0xA0] @ ''Kettle'')) = [''super'', ''kettle'']"
    "toLowerCase (CHR 0xC9 # ''CLAIR'') = CHR 0xE9 # ''clair''"
    "split_spaces ('' a'' @ [CHR 0x09, CHR 0xA0] @ ''b '') = [[], ''a'', ''b'', []]"
    by code_simp+
  have c1: "fst (calculateRelevance ''The Acme Kettle boils'' sample_product []) = 170"
    using calculateRelevance_amended
      [of "[]" "''The Acme Kettle boils''" sample_product, THEN conjunct1, THEN mp, OF miss]
      sums(1)
    by (rule trans)
  have c2: "calculateRelevance ''The Acme Kettle boils'' sample_product
         [(''The Acme Kettle boils_p1'', 5)] = (5, [(''The Acme Kettle boils_p1'', 5)])"
    using calculateRelevance_amended
      [of "[(''The Acme Kettle boils_p1'', 5)]" "''The Acme Kettle boils''" sample_product,
       THEN conjunct2, THEN spec, THEN mp, OF hit] .
  have c3: "fst (calculateRelevance ''my kettle''
            (candidate ''p3'' (''Super'' @ [CHR 0xA0] @ ''Kettle'') None None) []) = 0"
    using calculateRelevance_amended
      [of "[]" "''my kettle''" "candidate ''p3'' (''Super'' @ [CHR 0xA0] @ ''Kettle'') None None",
       THEN conjunct1, THEN mp, OF miss]
      sums(2)
    by (rule trans)
  have c4: "fst (calculateRelevance (''un '' @ [CHR 0xE9] @ ''clair'')
            (candidate ''p4'' (CHR 0xC9 # ''clair'') None None) []) = 110"
    using calculateRelevance_amended
      [of "[]" "''un '' @ [CHR 0xE9] @ ''clair''" "candidate ''p4'' (CHR 0xC9 # ''clair'') None None",
       THEN conjunct1, THEN mp, OF miss]
      sums(3)
    by (rule trans)
  from miss sums(1) c1 c2 strings c3 c4 show ?thesis by blast
qed

text \<open>
  Claim C1 as stated fails at a share of exactly 70%: the exact-mention text has ten
  significant words, the block contains seven of them, and \<open>ratio > 0.7\<close> is false, so the
  code scores 0 where the stated sum is 1000.
\<close>

theorem calculateRelevance_seventy_percent_counterexample:
  "mention_share ''We compared alpha bravo charlie delta eagle foxtrot hotel here'' mention_product
     = Some (7 / 10)
   \<and> fst (calculateRelevance ''We compared alpha bravo charlie delta eagle foxtrot hotel here''
            mention_product []) = 0
   \<and> stated_score ''We compared alpha bravo charlie delta eagle foxtrot hotel here''
        mention_product = 1000"
  by code_simp
subsection \<open>Order of the batch\<close>

lemma compareCandidates_precedes: "compareCandidates a b \<le> 0 \<longleftrightarrow> precedes a b"
  by (cases "p_paragraphIndex a"; cases "p_paragraphIndex b")
     (auto simp: compareCandidates_def precedes_def Let_def sgn_if)

lemma precedes_total: "precedes a b \<or> precedes b a"
  by (cases "p_paragraphIndex a"; cases "p_paragraphIndex b")
     (auto simp: precedes_def)

lemma precedes_trans: "precedes a b \<Longrightarrow> precedes b c \<Longrightarrow> precedes a c"
  by (cases "p_paragraphIndex a"; cases "p_paragraphIndex b"; cases "p_paragraphIndex c")
     (auto simp: precedes_def)

lemma mset_insert_sorted: "mset (insert_sorted cmp x ys) = add_mset x (mset ys)"
  by (induction ys) simp_all

lemma mset_sort_by: "mset (sort_by cmp xs) = mset xs"
  by (induction xs) (simp_all add: sort_by_def mset_insert_sorted)

lemma set_insert_sorted: "set (insert_sorted cmp x ys) = insert x (set ys)"
  by (induction ys) auto

lemma sorted_insert_candidates:
  "sorted_wrt precedes ys \<Longrightarrow> sorted_wrt precedes (insert_sorted compareCandidates x ys)"
proof (induction ys)
  case Nil
  then show ?case by simp
next
  case (Cons y ys)
  show ?case
  proof (cases "compareCandidates x y \<le> 0")
    case True
    then have xy: "precedes x y" by (simp add: compareCandidates_precedes)
    have "precedes x z" if "z \<in> set ys" for z
      using Cons.prems that xy precedes_trans by auto
    then show ?thesis using True Cons.prems xy by auto
  next
    case False
    then have "\<not> precedes x y" by (simp add: compareCandidates_precedes)
    then have yx: "precedes y x" using precedes_total by blast
    have "sorted_wrt precedes (insert_sorted compareCandidates x ys)"
      using Cons by simp
    moreover have "precedes y z" if "z \<in> set (insert_sorted compareCandidates x ys)" for z
      using that yx Cons.prems by (auto simp: set_insert_sorted)
    ultimately show ?thesis using False by simp
  qed
qed

lemma sorted_sortCandidates: "sorted_wrt precedes (sortCandidates cs)"
  unfolding sortCandidates_def sort_by_def
  by (induction cs) (simp_all add: sorted_insert_candidates)

text \<open>
  Claim C2, as amended. The batch is processed in the order of \<open>sortCandidates\<close>, a
  rearrangement of the unplaced candidates in which every candidate without a paragraph
  index stands before every candidate with one, candidates with an index stand in the
  order of falling index, and candidates that agree on the index or both lack it stand in
  the order of falling confidence.
\<close>

theorem sortCandidates_order:
  "mset (sortCandidates cs) = mset cs
   \<and> sorted_wrt precedes (sortCandidates cs)
   \<and> (\<forall>i j. i < j \<and> j < length (sortCandidates cs)
          \<and> p_paragraphIndex (sortCandidates cs ! j) = None
        \<longrightarrow> p_paragraphIndex (sortCandidates cs ! i) = None)"
proof -
  have srt: "sorted_wrt precedes (sortCandidates cs)" by (rule sorted_sortCandidates)
  have "p_paragraphIndex (sortCandidates cs ! i) = None"
    if "i < j" "j < length (sortCandidates cs)" "p_paragraphIndex (sortCandidates cs ! j) = None"
    for i j
  proof -
    have "precedes (sortCandidates cs ! i) (sortCandidates cs ! j)"
      using srt that by (simp add: sorted_wrt_iff_nth_less)
    then show ?thesis
      using that(3) by (cases "p_paragraphIndex (sortCandidates cs ! i)") (simp_all add: precedes_def)
  qed
  then have "\<forall>i j. i < j \<and> j < length (sortCandidates cs)
          \<and> p_paragraphIndex (sortCandidates cs ! j) = None
        \<longrightarrow> p_paragraphIndex (sortCandidates cs ! i) = None"
    by blast
  moreover have "mset (sortCandidates cs) = mset cs"
    by (simp add: sortCandidates_def mset_sort_by)
  ultimately show ?thesis using srt by blast
qed

theorem sortCandidates_order_witness:
  "sortCandidates
     [candidate ''a'' ''A'' (Some 2) (Some (1 / 2)), candidate ''b'' ''B'' None (Some (1 / 5)),
      candidate ''c'' ''C'' (Some 5) None, candidate ''d'' ''D'' None (Some (9 / 10))]
   = [candidate ''d'' ''D'' None (Some (9 / 10)), candidate ''b'' ''B'' None (Some (1 / 5)),
      candidate ''c'' ''C'' (Some 5) None, candidate ''a'' ''A'' (Some 2) (Some (1 / 2))]
   \<and> sorted_wrt precedes
       [candidate ''d'' ''D'' None (Some (9 / 10)), candidate ''b'' ''B'' None (Some (1 / 5)),
        candidate ''c'' ''C'' (Some 5) None, candidate ''a'' ''A'' (Some 2) (Some (1 / 2))]"
proof -
  have ev: "sortCandidates
     [candidate ''a'' ''A'' (Some 2) (Some (1 / 2)), candidate ''b'' ''B'' None (Some (1 / 5)),
      candidate ''c'' ''C'' (Some 5) None, candidate ''d'' ''D'' None (Some (9 / 10))]
   = [candidate ''d'' ''D'' None (Some (9 / 10)), candidate ''b'' ''B'' None (Some (1 / 5)),
      candidate ''c'' ''C'' (Some 5) None, candidate ''a'' ''A'' (Some 2) (Some (1 / 2))]"
    by (simp add: sortCandidates_def sort_by_def compareCandidates_def candidate_def
          confidence_or_zero_def)
  from sortCandidates_order
    [of "[candidate ''a'' ''A'' (Some 2) (Some (1 / 2)), candidate ''b'' ''B'' None (Some (1 / 5)),
          candidate ''c'' ''C'' (Some 5) None, candidate ''d'' ''D'' None (Some (9 / 10))]"]
  show ?thesis unfolding ev by (intro conjI) (rule refl, blast)
qed

text \<open>
  Claim C2 as stated fails on a batch of one candidate with a paragraph index and one
  without: the comparator reads the missing index as \<open>Infinity\<close> and sorts by falling
  index, so the candidate without a hint is processed first.
\<close>

theorem sortCandidates_hinted_first_counterexample:
  "sortCandidates [candidate ''a'' ''A'' (Some 2) (Some (9 / 10)), candidate ''b'' ''B'' None (Some (1 / 10))]
   = [candidate ''b'' ''B'' None (Some (1 / 10)), candidate ''a'' ''A'' (Some 2) (Some (9 / 10))]"
  by (simp add: sortCandidates_def sort_by_def compareCandidates_def candidate_def)

subsection \<open>Minimum gap of a batch\<close>

lemma occupied_iff:
  "g \<in> set (getOccupied nodes) \<longleftrightarrow>
     (\<exists>i < length nodes. is_placed_block (nodes ! i)
        \<and> i - MIN_GAP_BETWEEN_PRODUCTS \<le> g
        \<and> g \<le> min (length nodes - 1) (i + MIN_GAP_BETWEEN_PRODUCTS))"
proof
  assume "g \<in> set (getOccupied nodes)"
  then obtain i n where e: "(i, n) \<in> set (enumerate 0 nodes)"
    and g: "g \<in> set (if is_placed_block n
                then [i - MIN_GAP_BETWEEN_PRODUCTS
                      ..< Suc (min (length nodes - 1) (i + MIN_GAP_BETWEEN_PRODUCTS))]
                else [])"
    unfolding getOccupied_def by auto
  from e have "i < length nodes" "n = nodes ! i"
    by (simp_all add: in_set_enumerate_eq)
  with g show "\<exists>i < length nodes. is_placed_block (nodes ! i)
        \<and> i - MIN_GAP_BETWEEN_PRODUCTS \<le> g
        \<and> g \<le> min (length nodes - 1) (i + MIN_GAP_BETWEEN_PRODUCTS)"
    by (cases "is_placed_block n") (auto simp: less_Suc_eq_le)
next
  assume "\<exists>i < length nodes. is_placed_block (nodes ! i)
        \<and> i - MIN_GAP_BETWEEN_PRODUCTS \<le> g
        \<and> g \<le> min (length nodes - 1) (i + MIN_GAP_BETWEEN_PRODUCTS)"
  then obtain i where i: "i < length nodes" "is_placed_block (nodes ! i)"
    "i - MIN_GAP_BETWEEN_PRODUCTS \<le> g"
    "g \<le> min (length nodes - 1) (i + MIN_GAP_BETWEEN_PRODUCTS)"
    by blast
  have "(i, nodes ! i) \<in> set (enumerate 0 nodes)"
    using i(1) by (simp add: in_set_enumerate_eq)
  moreover have "g \<in> set [i - MIN_GAP_BETWEEN_PRODUCTS
                      ..< Suc (min (length nodes - 1) (i + MIN_GAP_BETWEEN_PRODUCTS))]"
    using i(3,4) by (auto simp: min_def)
  ultimately show "g \<in> set (getOccupied nodes)"
    unfolding getOccupied_def using i(2) by (simp only: set_concat set_map) force
qed

lemma free_is_far:
  assumes "b < length nodes" and "b \<notin> set (getOccupied nodes)"
    and "j < length nodes" and "is_placed_block (nodes ! j)"
  shows "j + MIN_GAP_BETWEEN_PRODUCTS < b \<or> b + MIN_GAP_BETWEEN_PRODUCTS < j"
proof -
  have "\<not> (j - MIN_GAP_BETWEEN_PRODUCTS \<le> b
            \<and> b \<le> min (length nodes - 1) (j + MIN_GAP_BETWEEN_PRODUCTS))"
    using assms occupied_iff by blast
  then show ?thesis using assms(1) by auto
qed

text \<open>A chosen index is \<open>-1\<close> or the index of a node outside the occupied zones.\<close>

lemma paragraph_position_bound:
  "paragraph_position ns i c t = Some r \<Longrightarrow> i \<le> r \<and> r < i + length ns"
  by (induction ns i c t rule: paragraph_position.induct) (fastforce split: if_splits)+

lemma probe_free:
  "probe nodes occ i offs = Some j \<Longrightarrow> i < length nodes \<Longrightarrow> j < length nodes \<and> j \<notin> set occ"
  by (induction offs) (auto split: if_splits)

lemma tryParagraphIndex_free:
  assumes "tryParagraphIndex p nodes occ = (b, m)" and "0 \<le> b"
  shows "nat b < length nodes \<and> nat b \<notin> set occ"
proof (cases "p_paragraphIndex p")
  case None
  then show ?thesis using assms by (simp add: tryParagraphIndex_def)
next
  case (Some k)
  show ?thesis
  proof (cases "0 \<le> k")
    case False
    then show ?thesis using assms Some by (simp add: tryParagraphIndex_def)
  next
    case True
    show ?thesis
    proof (cases "paragraph_position nodes 0 0 k")
      case None
      then show ?thesis using assms Some True by (simp add: tryParagraphIndex_def)
    next
      case pos: (Some i)
      then have i: "i < length nodes" using paragraph_position_bound by fastforce
      show ?thesis
      proof (cases "i \<in> set occ")
        case False
        then show ?thesis using assms Some True pos i by (auto simp: tryParagraphIndex_def)
      next
        case occ: True
        show ?thesis
        proof (cases "probe nodes occ i [1, 2, 3, 4]")
          case None
          then show ?thesis using assms Some True pos occ by (simp add: tryParagraphIndex_def)
        next
          case pr: (Some j)
          then have "j < length nodes \<and> j \<notin> set occ" using i by (rule probe_free)
          moreover have "b = int j"
            using assms Some True pos occ pr by (simp add: tryParagraphIndex_def)
          ultimately show ?thesis by simp
        qed
      qed
    qed
  qed
qed

lemma contentMatch_free:
  assumes "contentMatch p occ (idx, node) (cache, b, m) = (cache', b', m')"
    and "idx < n"
    and "0 \<le> b \<longrightarrow> nat b < n \<and> nat b \<notin> set occ"
    and "0 \<le> b'"
  shows "nat b' < n \<and> nat b' \<notin> set occ"
  using assms
  by (auto simp: contentMatch_def Let_def split: option.splits if_splits prod.splits)

lemma fold_contentMatch_free:
  assumes "fold (contentMatch p occ) es (cache, b, m) = (cache', b', m')"
    and "\<forall>e \<in> set es. fst e < n"
    and "0 \<le> b \<longrightarrow> nat b < n \<and> nat b \<notin> set occ"
    and "0 \<le> b'"
  shows "nat b' < n \<and> nat b' \<notin> set occ"
  using assms
proof (induction es arbitrary: cache b m)
  case Nil
  then show ?case by simp
next
  case (Cons e es)
  obtain idx node where e: "e = (idx, node)" by (cases e)
  obtain c1 b1 m1 where step: "contentMatch p occ (idx, node) (cache, b, m) = (c1, b1, m1)"
    by (metis prod_cases3)
  have idx: "idx < n" using Cons.prems(2) e by simp
  have "0 \<le> b1 \<longrightarrow> nat b1 < n \<and> nat b1 \<notin> set occ"
    using contentMatch_free[OF step idx Cons.prems(3)] by blast
  moreover have "fold (contentMatch p occ) es (c1, b1, m1) = (cache', b', m')"
    using Cons.prems(1) e step by simp
  ultimately show ?case
    using Cons.IH Cons.prems(2,4) by simp
qed

lemma findPosition_free:
  assumes "findPosition p nodes cache = (cache', b, m)" and "0 \<le> b"
  shows "nat b < length nodes \<and> nat b \<notin> set (getOccupied nodes)"
proof -
  obtain hb hm where h: "tryParagraphIndex p nodes (getOccupied nodes) = (hb, hm)"
    by (cases "tryParagraphIndex p nodes (getOccupied nodes)")
  have hfree: "0 \<le> hb \<longrightarrow> nat hb < length nodes \<and> nat hb \<notin> set (getOccupied nodes)"
    using tryParagraphIndex_free[OF h] by blast
  show ?thesis
  proof (cases "hm < 9000")
    case False
    then have "b = hb" using assms(1) h by (simp add: findPosition_def Let_def)
    then show ?thesis using hfree assms(2) by simp
  next
    case True
    then have f: "fold (contentMatch p (getOccupied nodes)) (enumerate 0 nodes) (cache, hb, hm)
        = (cache', b, m)"
      using assms(1) h by (simp add: findPosition_def Let_def)
    have "\<forall>e \<in> set (enumerate 0 nodes). fst e < length nodes"
      by (auto simp: in_set_enumerate_eq)
    from fold_contentMatch_free[OF f this hfree assms(2)] show ?thesis .
  qed
qed

lemma nth_splice:
  assumes "k \<le> length xs" and "q \<le> length xs"
  shows "splice k x xs ! q = (if q < k then xs ! q else if q = k then x else xs ! (q - 1))"
  using assms by (auto simp: splice_def nth_append min_def)

lemma length_splice [simp]: "length (splice k x xs) = Suc (length xs)"
  by (simp add: splice_def)

lemma unflagged_splice:
  assumes "length flags = length xs"
  shows "unflagged (splice k x xs) (splice k True flags) = unflagged xs flags"
proof -
  have "zip (take k xs @ x # drop k xs) (take k flags @ True # drop k flags)
      = zip (take k xs) (take k flags) @ (x, True) # zip (drop k xs) (drop k flags)"
    using assms by (simp add: zip_append)
  moreover have "zip xs flags = zip (take k xs) (take k flags) @ zip (drop k xs) (drop k flags)"
    using assms by (metis append_take_drop_id length_take zip_append)
  ultimately show ?thesis by (simp add: unflagged_def splice_def)
qed

lemma count_splice_True:
  "length (filter id (splice k True flags)) = Suc (length (filter id flags))"
proof -
  have "length (filter id flags) = length (filter id (take k flags @ drop k flags))" by simp
  also have "\<dots> = length (filter id (take k flags)) + length (filter id (drop k flags))"
    by (simp only: filter_append length_append)
  finally show ?thesis by (simp add: splice_def)
qed

lemma gap_kept_splice:
  assumes inv: "gap_kept nodes flags"
    and b: "b < length nodes"
    and free: "b \<notin> set (getOccupied nodes)"
    and x: "node_type x = PRODUCT"
  shows "gap_kept (splice (Suc b) x nodes) (splice (Suc b) True flags)"
proof -
  let ?k = "Suc b"
  let ?ns = "splice ?k x nodes" and ?fs = "splice ?k True flags"
  have len: "length flags = length nodes" using inv by (simp add: gap_kept_def)
  have k: "?k \<le> length nodes" "?k \<le> length flags" using b len by simp_all
  have far: "j + MIN_GAP_BETWEEN_PRODUCTS < b \<or> b + MIN_GAP_BETWEEN_PRODUCTS < j"
    if "j < length nodes" "is_placed_block (nodes ! j)" for j
    using free_is_far[OF b free that] .
  have old_gap: "p + MIN_GAP_BETWEEN_PRODUCTS < q \<or> q + MIN_GAP_BETWEEN_PRODUCTS < p"
    if "p < length nodes" "q < length nodes" "flags ! p" "q \<noteq> p" "is_placed_block (nodes ! q)"
    for p q
    using inv that unfolding gap_kept_def by blast
  have old_prod: "node_type (nodes ! p) = PRODUCT" if "p < length nodes" "flags ! p" for p
    using inv that unfolding gap_kept_def by blast
  have nn: "?ns ! q = (if q < ?k then nodes ! q else if q = ?k then x else nodes ! (q - 1))"
    if "q \<le> length nodes" for q
    using nth_splice[OF k(1) that] .
  have ff: "?fs ! q = (if q < ?k then flags ! q else if q = ?k then True else flags ! (q - 1))"
    if "q \<le> length nodes" for q
    using nth_splice[OF k(2), of q True] that len by simp
  have xp: "is_placed_block x" using x by (simp add: is_placed_block_def)
  have prod: "node_type (?ns ! p) = PRODUCT" if "p < length ?ns" "?fs ! p" for p
  proof -
    have p: "p \<le> length nodes" using that(1) by simp
    show ?thesis
    proof (cases "p = ?k")
      case True
      then show ?thesis using nn[OF p] x by simp
    next
      case False
      define po where "po = (if p < ?k then p else p - 1)"
      have "po < length nodes" "flags ! po" "?ns ! p = nodes ! po"
        using False p that(2) nn[OF p] ff[OF p] b by (auto simp: po_def)
      then show ?thesis using old_prod by simp
    qed
  qed
  have gap: "p + MIN_GAP_BETWEEN_PRODUCTS < q \<or> q + MIN_GAP_BETWEEN_PRODUCTS < p"
    if pq: "p < length ?ns" "q < length ?ns" "?fs ! p" "q \<noteq> p" "is_placed_block (?ns ! q)"
    for p q
  proof -
    have p: "p \<le> length nodes" and q: "q \<le> length nodes" using pq(1,2) by simp_all
    define po where "po = (if p < ?k then p else p - 1)"
    define qo where "qo = (if q < ?k then q else q - 1)"
    show ?thesis
    proof (cases "p = ?k")
      case pk: True
      then have qk: "q \<noteq> ?k" using pq(4) by simp
      have qo: "qo < length nodes" "is_placed_block (nodes ! qo)"
        using qk q pq(5) nn[OF q] b by (auto simp: qo_def)
      from far[OF qo] show ?thesis
        using pk qk by (auto simp: qo_def split: if_splits)
    next
      case pk: False
      have po: "po < length nodes" "flags ! po"
        using pk p pq(3) ff[OF p] b by (auto simp: po_def)
      show ?thesis
      proof (cases "q = ?k")
        case qk: True
        have "is_placed_block (nodes ! po)"
          using old_prod[OF po] by (simp add: is_placed_block_def)
        from far[OF po(1) this] show ?thesis
          using pk qk by (auto simp: po_def split: if_splits)
      next
        case qk: False
        have qo: "qo < length nodes" "is_placed_block (nodes ! qo)"
          using qk q pq(5) nn[OF q] b by (auto simp: qo_def)
        have ne: "qo \<noteq> po"
          using pk qk pq(4) by (auto simp: po_def qo_def split: if_splits)
        from old_gap[OF po(1) qo(1) po(2) ne qo(2)] show ?thesis
          using pk qk by (auto simp: po_def qo_def split: if_splits)
      qed
    qed
  qed
  show ?thesis
    unfolding gap_kept_def using len prod gap by auto
qed

text \<open>The loop with flags, step by step.\<close>

lemma placeCandidate_flagged_fst:
  "fst (placeCandidate_flagged now p (st, flags)) = placeCandidate now p st"
  by (cases st) (auto simp: placeCandidate_flagged_def split: prod.splits)

lemma fold_flagged_fst:
  "fst (fold (placeCandidate_flagged now) cs (st, flags)) = fold (placeCandidate now) cs st"
proof (induction cs arbitrary: st flags)
  case Nil
  then show ?case by simp
next
  case (Cons c cs)
  obtain st1 fl1 where s: "placeCandidate_flagged now c (st, flags) = (st1, fl1)"
    by (cases "placeCandidate_flagged now c (st, flags)")
  have "st1 = placeCandidate now c st"
    using placeCandidate_flagged_fst[of now c st flags] s by simp
  then show ?case using Cons.IH[of st1 fl1] s by simp
qed

lemma batch_inv_step:
  assumes "batch_inv original sf"
  shows "batch_inv original (placeCandidate_flagged now p sf)"
proof -
  obtain nodes injected cache flags where sf: "sf = ((nodes, injected, cache), flags)"
    by (metis prod_cases3 surj_pair)
  obtain cache' b m where fp: "findPosition p nodes cache = (cache', b, m)"
    by (metis prod_cases3)
  have inv: "gap_kept nodes flags" "unflagged nodes flags = original"
    "length (filter id flags) = injected"
    using assms sf by (simp_all add: batch_inv_def)
  show ?thesis
  proof (cases "0 \<le> b \<and> 0 < m")
    case False
    then show ?thesis
      using inv sf fp
      by (auto simp: batch_inv_def placeCandidate_flagged_def placeCandidate_def)
  next
    case True
    then have free: "nat b < length nodes" "nat b \<notin> set (getOccupied nodes)"
      using findPosition_free[OF fp] by simp_all
    have len: "length flags = length nodes" using inv(1) by (simp add: gap_kept_def)
    have res: "placeCandidate_flagged now p sf
        = ((splice (Suc (nat b)) (productNode (p_id p) now injected) nodes, injected + 1, cache'),
           splice (Suc (nat b)) True flags)"
      using True sf fp by (simp add: placeCandidate_flagged_def placeCandidate_def)
    have "gap_kept (splice (Suc (nat b)) (productNode (p_id p) now injected) nodes)
        (splice (Suc (nat b)) True flags)"
      using gap_kept_splice[OF inv(1) free] by (simp add: productNode_def)
    then show ?thesis
      unfolding res batch_inv_def
      using inv(2,3) len by (simp add: unflagged_splice count_splice_True)
  qed
qed

lemma batch_inv_fold:
  "batch_inv original sf \<Longrightarrow> batch_inv original (fold (placeCandidate_flagged now) cs sf)"
  by (induction cs arbitrary: sf) (simp_all add: batch_inv_step)

lemma batch_inv_start:
  "batch_inv editorNodes ((editorNodes, 0, cache), replicate (length editorNodes) False)"
proof -
  have "unflagged xs (replicate (length xs) False) = xs" for xs :: "EditorNode list"
    by (induction xs) (simp_all add: unflagged_def)
  moreover have "filter id (replicate n False) = []" for n
    by (induction n) simp_all
  ultimately show ?thesis
    by (auto simp: batch_inv_def gap_kept_def)
qed

text \<open>
  Claim C3. After a batch, with \<open>flags\<close> marking the nodes it inserted: the other nodes
  are the document the batch started from, the batch inserted as many nodes as it reports,
  each of them is a product node, and every inserted node lies more than
  \<open>MIN_GAP_BETWEEN_PRODUCTS\<close> positions from every other product or comparison node,
  inserted by the batch or there before. No placement is exempt: a paragraph-index hint
  that points into an occupied zone is moved to a free block or falls back to content
  matching.
\<close>

theorem autoPopulate_min_gap:
  assumes "nodes' = fst (handleAutoPopulate now editorNodes productMap cache)"
    and "flags = inserted_flags now editorNodes productMap cache"
  shows "length flags = length nodes'
    \<and> unflagged nodes' flags = editorNodes
    \<and> length (filter id flags) = fst (snd (handleAutoPopulate now editorNodes productMap cache))
    \<and> (\<forall>p < length nodes'. flags ! p \<longrightarrow> node_type (nodes' ! p) = PRODUCT)
    \<and> (\<forall>p q. p < length nodes' \<and> q < length nodes' \<and> flags ! p \<and> q \<noteq> p
           \<and> is_placed_block (nodes' ! q)
         \<longrightarrow> p + MIN_GAP_BETWEEN_PRODUCTS < q \<or> q + MIN_GAP_BETWEEN_PRODUCTS < p)"
proof -
  define cs where "cs = sortCandidates (getUnplacedProducts editorNodes productMap)"
  define start where
    "start = ((editorNodes, 0 :: nat, cache), replicate (length editorNodes) False)"
  define final where "final = fold (placeCandidate_flagged now) cs start"
  have "cs = []" if "getUnplacedProducts editorNodes productMap = []"
    using that by (simp add: cs_def sortCandidates_def sort_by_def)
  then have run: "handleAutoPopulate now editorNodes productMap cache
      = fold (placeCandidate now) cs (editorNodes, 0, cache)"
    by (auto simp: handleAutoPopulate_def Let_def cs_def)
  have "fst final = fold (placeCandidate now) cs (editorNodes, 0, cache)"
    unfolding final_def start_def by (rule fold_flagged_fst)
  then have fst_final: "fst final = handleAutoPopulate now editorNodes productMap cache"
    using run by simp
  have snd_final: "snd final = flags"
    using assms(2) by (simp add: inserted_flags_def final_def start_def cs_def)
  have "batch_inv editorNodes final"
    unfolding final_def start_def by (intro batch_inv_fold batch_inv_start)
  moreover have "final = ((nodes', fst (snd (fst final)), snd (snd (fst final))), flags)"
    using fst_final snd_final assms(1) by (simp add: prod_eq_iff)
  ultimately have inv: "gap_kept nodes' flags" "unflagged nodes' flags = editorNodes"
    "length (filter id flags) = fst (snd (fst final))"
    unfolding batch_inv_def by (metis (mono_tags, lifting) case_prod_conv)+
  have inj: "length (filter id flags) = fst (snd (handleAutoPopulate now editorNodes productMap cache))"
    using inv(3) fst_final by simp
  show ?thesis
    using inv(1,2) inj unfolding gap_kept_def by blast
qed

theorem autoPopulate_min_gap_witness:
  "map node_type (fst (handleAutoPopulate 17 sample_nodes sample_map []))
     = [HTML, COMPARISON, HTML, HTML, HTML, HTML, PRODUCT, HTML, HTML, HTML, HTML, PRODUCT,
        HTML, HTML, HTML]
   \<and> map productId (filter is_placed_block (fst (handleAutoPopulate 17 sample_nodes sample_map [])))
     = [None, Some ''c'', Some ''b'']
   \<and> inserted_flags 17 sample_nodes sample_map []
     = [False, False, False, False, False, False, True, False, False, False, False, True,
        False, False, False]
   \<and> fst (snd (handleAutoPopulate 17 sample_nodes sample_map [])) = 2
   \<and> unflagged (fst (handleAutoPopulate 17 sample_nodes sample_map []))
        (inserted_flags 17 sample_nodes sample_map []) = sample_nodes
   \<and> (6 :: nat) + MIN_GAP_BETWEEN_PRODUCTS < 11 \<and> (1 :: nat) + MIN_GAP_BETWEEN_PRODUCTS < 6"
proof -
  have ev: "map node_type (fst (handleAutoPopulate 17 sample_nodes sample_map []))
     = [HTML, COMPARISON, HTML, HTML, HTML, HTML, PRODUCT, HTML, HTML, HTML, HTML, PRODUCT,
        HTML, HTML, HTML]
   \<and> map productId (filter is_placed_block (fst (handleAutoPopulate 17 sample_nodes sample_map [])))
     = [None, Some ''c'', Some ''b'']
   \<and> inserted_flags 17 sample_nodes sample_map []
     = [False, False, False, False, False, False, True, False, False, False, False, True,
        False, False, False]
   \<and> fst (snd (handleAutoPopulate 17 sample_nodes sample_map [])) = 2"
    by code_simp
  from autoPopulate_min_gap [OF refl refl, of 17 sample_nodes sample_map "[]"] ev
  show ?thesis by (simp add: MIN_GAP_BETWEEN_PRODUCTS_def)
qed

subsection \<open>Deep scan with fallback\<close>

lemma detectWithFallback_unusable:
  assumes "precision_unusable precision title html_text"
  shows "detectWithFallback precision legacy title html_text =
     ((case precision of None \<Rightarrow> [] | Some m \<Rightarrow> [PrecisionDetector]) @ [LegacyDetector],
      case legacy title html_text of
        Inl e \<Rightarrow> Inl e
      | Inr l \<Rightarrow> Inr \<lparr>products = detectedProducts l, comparison = lr_comparison l,
                       candidateCount = length (detectedProducts l)\<rparr>)"
  using assms
  by (auto simp: detectWithFallback_def tryPrecisionDetect_def precision_unusable_def Let_def
        split: option.splits sum.splits)

lemma detectWithFallback_usable:
  assumes "precision = Some detect" and "detect title html_text = Inr r" and "pr_products r \<noteq> []"
  shows "detectWithFallback precision legacy title html_text =
     ([PrecisionDetector],
      Inr \<lparr>products = pr_products r, comparison = pr_comparison r,
           candidateCount = pr_candidateCount r\<rparr>)"
  using assms by (simp add: detectWithFallback_def tryPrecisionDetect_def)

lemma find_append_case:
  "find P (xs @ ys) = (case find P xs of None \<Rightarrow> find P ys | Some x \<Rightarrow> Some x)"
  by (induction xs) simp_all

lemma map_of_insert_property:
  "k \<notin> fst ` set m \<Longrightarrow> map_of (insert_property k v m) = (map_of m)(k \<mapsto> v)"
  by (induction m) (auto simp: fun_eq_iff)

lemma map_of_object_set: "map_of (object_set k v m) = (map_of m)(k \<mapsto> v)"
  by (simp add: object_set_def update_conv' map_of_insert_property)

lemma map_of_mergeProducts:
  "map_of (mergeProducts productMap ps) k =
     (case find (\<lambda>p. p_id p = k) (rev ps) of
        Some p \<Rightarrow> Some p
      | None \<Rightarrow> map_of productMap k)"
  unfolding mergeProducts_def
proof (induction ps arbitrary: productMap)
  case Nil
  then show ?case by simp
next
  case (Cons p ps)
  show ?case
    by (simp add: Cons.IH find_append_case map_of_object_set split: option.splits)
qed

lemma scan_ready_guards:
  assumes "scan_ready config editorNodes"
  shows "\<not> (aiProvider config = None \<or> aiProvider config = Some [])"
    and "\<not> (currentHtml editorNodes = [] \<or> length (trim (currentHtml editorNodes)) < 50)"
proof -
  show "\<not> (aiProvider config = None \<or> aiProvider config = Some [])"
    using assms by (simp add: scan_ready_def)
  have "length (trim (currentHtml editorNodes)) \<ge> 50"
    using assms by (simp add: scan_ready_def)
  moreover have "trim [] = []" by (simp add: trim_def)
  ultimately show "\<not> (currentHtml editorNodes = [] \<or> length (trim (currentHtml editorNodes)) < 50)"
    by auto
qed

text \<open>
  Claim C8. In a scan that reaches its detection step: when the advanced detector is
  missing, throws or returns no product, and the legacy detector returns, the legacy
  detector is called (once, after the advanced one if that exists), and the outcome is
  what steps 3 and 4 make of the legacy result in the unified shape. Its products are the
  ones merged into the product map: every id of a detected product maps to that product
  (the last one detected under the id), and every other id maps as before. Its comparison
  is the one inserted: when the legacy result has a comparison and the document has no
  comparison node, the new document is the old one with one node put in at index 1, a
  comparison node with the id \<open>comp-table-\<close> and the time, that holds the legacy
  comparison; otherwise the document is unchanged. When the advanced detector returns
  products, the same steps run on its result, in the same shape, and the legacy detector
  is not called.
\<close>

theorem runDeepScan_fallback:
  "(scan_ready config editorNodes
      \<and> precision_unusable precision title (currentHtml editorNodes)
      \<and> legacy title (currentHtml editorNodes) = Inr l
    \<longrightarrow> so_called (runDeepScan now config title precision legacy editorNodes productMap)
          = (case precision of None \<Rightarrow> [] | Some m \<Rightarrow> [PrecisionDetector]) @ [LegacyDetector]
        \<and> runDeepScan now config title precision legacy editorNodes productMap
          = applyDetection now config (currentHtml editorNodes) editorNodes productMap
              ((case precision of None \<Rightarrow> [] | Some m \<Rightarrow> [PrecisionDetector]) @ [LegacyDetector])
              \<lparr>products = detectedProducts l, comparison = lr_comparison l,
               candidateCount = length (detectedProducts l)\<rparr>
        \<and> (\<forall>k. map_of (so_productMap
                    (runDeepScan now config title precision legacy editorNodes productMap)) k
              = (case find (\<lambda>p. p_id p = k) (rev (detectedProducts l)) of
                   Some p \<Rightarrow> Some p
                 | None \<Rightarrow> map_of productMap k))
        \<and> so_editorNodes (runDeepScan now config title precision legacy editorNodes productMap)
          = (case lr_comparison l of
               None \<Rightarrow> editorNodes
             | Some c \<Rightarrow>
                 if list_ex (\<lambda>n. node_type n = COMPARISON) editorNodes then editorNodes
                 else take 1 editorNodes
                      @ \<lparr>node_id = ''comp-table-'' @ string_of_nat now, node_type = COMPARISON,
                         content = None, productId = None, comparisonData = Some c\<rparr>
                      # drop 1 editorNodes))
   \<and> (scan_ready config editorNodes
      \<and> precision = Some detect \<and> detect title (currentHtml editorNodes) = Inr r
      \<and> pr_products r \<noteq> []
    \<longrightarrow> runDeepScan now config title precision legacy editorNodes productMap
          = applyDetection now config (currentHtml editorNodes) editorNodes productMap
              [PrecisionDetector]
              \<lparr>products = pr_products r, comparison = pr_comparison r,
               candidateCount = pr_candidateCount r\<rparr>
        \<and> so_called (runDeepScan now config title precision legacy editorNodes productMap)
          = [PrecisionDetector])"
proof (intro conjI impI)
  assume a: "scan_ready config editorNodes
      \<and> precision_unusable precision title (currentHtml editorNodes)
      \<and> legacy title (currentHtml editorNodes) = Inr l"
  let ?called = "(case precision of None \<Rightarrow> [] | Some m \<Rightarrow> [PrecisionDetector]) @ [LegacyDetector]"
  let ?d = "\<lparr>products = detectedProducts l, comparison = lr_comparison l,
               candidateCount = length (detectedProducts l)\<rparr>"
  have det: "detectWithFallback precision legacy title (currentHtml editorNodes) = (?called, Inr ?d)"
    using a detectWithFallback_unusable[of precision title "currentHtml editorNodes" legacy]
    by simp
  show run: "runDeepScan now config title precision legacy editorNodes productMap
      = applyDetection now config (currentHtml editorNodes) editorNodes productMap ?called ?d"
    using scan_ready_guards[of config editorNodes] a det
    by (auto simp: runDeepScan_def Let_def)
  show "so_called (runDeepScan now config title precision legacy editorNodes productMap) = ?called"
    unfolding run by (simp add: applyDetection_def Let_def split: option.splits)
  have pm: "so_productMap (applyDetection now config (currentHtml editorNodes) editorNodes
        productMap ?called ?d) = mergeProducts productMap (detectedProducts l)"
    by (cases "detectedProducts l")
       (simp_all add: applyDetection_def Let_def mergeProducts_def split: option.splits)
  show "\<forall>k. map_of (so_productMap
                    (runDeepScan now config title precision legacy editorNodes productMap)) k
              = (case find (\<lambda>p. p_id p = k) (rev (detectedProducts l)) of
                   Some p \<Rightarrow> Some p
                 | None \<Rightarrow> map_of productMap k)"
    unfolding run pm by (simp add: map_of_mergeProducts)
  show "so_editorNodes (runDeepScan now config title precision legacy editorNodes productMap)
          = (case lr_comparison l of
               None \<Rightarrow> editorNodes
             | Some c \<Rightarrow>
                 if list_ex (\<lambda>n. node_type n = COMPARISON) editorNodes then editorNodes
                 else take 1 editorNodes
                      @ \<lparr>node_id = ''comp-table-'' @ string_of_nat now, node_type = COMPARISON,
                         content = None, productId = None, comparisonData = Some c\<rparr>
                      # drop 1 editorNodes)"
    unfolding run
    by (simp add: applyDetection_def comparisonNode_def splice_def Let_def split: option.splits)
next
  assume a: "scan_ready config editorNodes
      \<and> precision = Some detect \<and> detect title (currentHtml editorNodes) = Inr r
      \<and> pr_products r \<noteq> []"
  then have "detectWithFallback precision legacy title (currentHtml editorNodes) =
     ([PrecisionDetector],
      Inr \<lparr>products = pr_products r, comparison = pr_comparison r,
           candidateCount = pr_candidateCount r\<rparr>)"
    using detectWithFallback_usable by blast
  then show run: "runDeepScan now config title precision legacy editorNodes productMap
          = applyDetection now config (currentHtml editorNodes) editorNodes productMap
              [PrecisionDetector]
              \<lparr>products = pr_products r, comparison = pr_comparison r,
               candidateCount = pr_candidateCount r\<rparr>"
    using scan_ready_guards[of config editorNodes] a
    by (auto simp: runDeepScan_def Let_def)
  show "so_called (runDeepScan now config title precision legacy editorNodes productMap)
          = [PrecisionDetector]"
    unfolding run by (simp add: applyDetection_def Let_def split: option.splits)
qed

theorem runDeepScan_fallback_witness:
  "scan_ready sample_config sample_doc
   \<and> precision_unusable failing_precision ''Kettles'' (currentHtml sample_doc)
   \<and> precision_unusable None ''Kettles'' (currentHtml sample_doc)
   \<and> so_called (runDeepScan 7 sample_config ''Kettles'' failing_precision sample_legacy sample_doc [])
       = [PrecisionDetector, LegacyDetector]
   \<and> so_called (runDeepScan 7 sample_config ''Kettles'' None sample_legacy sample_doc [])
       = [LegacyDetector]
   \<and> so_productMap (runDeepScan 7 sample_config ''Kettles'' failing_precision sample_legacy sample_doc [])
       = [(''p1'', sample_product)]
   \<and> so_editorNodes (runDeepScan 7 sample_config ''Kettles'' failing_precision sample_legacy sample_doc [])
       = [htmlBlock ''b0'' ''<p>The Acme Kettle boils water in two minutes flat.</p>'',
          \<lparr>node_id = ''comp-table-7'', node_type = COMPARISON, content = None, productId = None,
           comparisonData = Some \<lparr>cmp_productIds = [''p1''], cmp_specs = [''Price'']\<rparr>\<rparr>,
          htmlBlock ''b1'' ''<p>It holds 1.7 litres and switches off by itself.</p>'']
   \<and> so_toasts (runDeepScan 7 sample_config ''Kettles'' failing_precision sample_legacy sample_doc [])
       = [''Precision Scan: 1 products found'', ''Comparison Table Added'']
   \<and> map fst (mergeProducts [(''3'', sample_product), (''b'', sample_product)]
        [candidate ''10'' ''A'' None None, candidate ''c'' ''C'' None None,
         candidate ''2'' ''B'' None None, candidate ''007'' ''D'' None None,
         candidate ''4294967294'' ''E'' None None, candidate ''4294967295'' ''F'' None None])
       = [''2'', ''3'', ''10'', ''4294967294'', ''b'', ''c'', ''007'', ''4294967295'']
   \<and> \<not> scan_ready sample_config [htmlBlock ''b0'' (replicate 50 (CHR 0xA0))]
   \<and> currentHtml [htmlBlock ''b0'' ''x'', productNode ''p1'' 7 0, htmlBlock ''b1'' ''y'']
       = ''x'' @ [CHR 0x0A, CHR 0x0A] @ ''y''"
proof -
  have ready: "scan_ready sample_config sample_doc" by code_simp
  have un1: "precision_unusable failing_precision ''Kettles'' (currentHtml sample_doc)"
    by (simp add: precision_unusable_def failing_precision_def)
  have un2: "precision_unusable None ''Kettles'' (currentHtml sample_doc)"
    by (simp add: precision_unusable_def)
  have leg: "sample_legacy ''Kettles'' (currentHtml sample_doc)
      = Inr \<lparr>detectedProducts = [sample_product],
             lr_comparison = Some \<lparr>cmp_productIds = [''p1''], cmp_specs = [''Price'']\<rparr>\<rparr>"
    by (simp add: sample_legacy_def)
  note fallback1 = runDeepScan_fallback
      [of sample_config sample_doc failing_precision "''Kettles''" sample_legacy
          "\<lparr>detectedProducts = [sample_product],
            lr_comparison = Some \<lparr>cmp_productIds = [''p1''], cmp_specs = [''Price'']\<rparr>\<rparr>" 7 "[]",
       THEN conjunct1, THEN mp, OF conjI [OF ready conjI [OF un1 leg]]]
  note called1 = fallback1 [THEN conjunct1]
  note nodes1 = fallback1 [THEN conjunct2, THEN conjunct2, THEN conjunct2]
  note called2 = runDeepScan_fallback
      [of sample_config sample_doc None "''Kettles''" sample_legacy
          "\<lparr>detectedProducts = [sample_product],
            lr_comparison = Some \<lparr>cmp_productIds = [''p1''], cmp_specs = [''Price'']\<rparr>\<rparr>" 7 "[]",
       THEN conjunct1, THEN mp, OF conjI [OF ready conjI [OF un2 leg]], THEN conjunct1]
  have c1: "so_called (runDeepScan 7 sample_config ''Kettles'' failing_precision sample_legacy sample_doc [])
       = [PrecisionDetector, LegacyDetector]"
    using called1 by (simp add: failing_precision_def)
  have c2: "so_called (runDeepScan 7 sample_config ''Kettles'' None sample_legacy sample_doc [])
       = [LegacyDetector]"
    using called2 by simp
  have seven: "string_of_nat 7 = ''7''" by code_simp
  have c3: "so_editorNodes (runDeepScan 7 sample_config ''Kettles'' failing_precision sample_legacy sample_doc [])
       = [htmlBlock ''b0'' ''<p>The Acme Kettle boils water in two minutes flat.</p>'',
          \<lparr>node_id = ''comp-table-7'', node_type = COMPARISON, content = None, productId = None,
           comparisonData = Some \<lparr>cmp_productIds = [''p1''], cmp_specs = [''Price'']\<rparr>\<rparr>,
          htmlBlock ''b1'' ''<p>It holds 1.7 litres and switches off by itself.</p>'']"
    using nodes1 by (simp add: sample_doc_def htmlBlock_def seven)
  have rest: "so_productMap (runDeepScan 7 sample_config ''Kettles'' failing_precision sample_legacy sample_doc [])
       = [(''p1'', sample_product)]
   \<and> so_toasts (runDeepScan 7 sample_config ''Kettles'' failing_precision sample_legacy sample_doc [])
       = [''Precision Scan: 1 products found'', ''Comparison Table Added'']
   \<and> map fst (mergeProducts [(''3'', sample_product), (''b'', sample_product)]
        [candidate ''10'' ''A'' None None, candidate ''c'' ''C'' None None,
         candidate ''2'' ''B'' None None, candidate ''007'' ''D'' None None,
         candidate ''4294967294'' ''E'' None None, candidate ''4294967295'' ''F'' None None])
       = [''2'', ''3'', ''10'', ''4294967294'', ''b'', ''c'', ''007'', ''4294967295'']
   \<and> \<not> scan_ready sample_config [htmlBlock ''b0'' (replicate 50 (CHR 0xA0))]
   \<and> currentHtml [htmlBlock ''b0'' ''x'', productNode ''p1'' 7 0, htmlBlock ''b1'' ''y'']
       = ''x'' @ [CHR 0x0A, CHR 0x0A] @ ''y''"
    by code_simp
  from ready un1 un2 c1 c2 c3 rest show ?thesis by blast
qed

subsection \<open>Page audit\<close>

lemma alist_ext:
  "distinct (map fst xs) \<Longrightarrow> map fst xs = map fst ys \<Longrightarrow> map_of xs = map_of ys \<Longrightarrow> xs = ys"
proof (induction xs arbitrary: ys)
  case Nil
  then show ?case by simp
next
  case (Cons x xs)
  then obtain y ys' where ys: "ys = y # ys'" by (cases ys) auto
  have k: "fst x = fst y" "map fst xs = map fst ys'" using Cons.prems(2) ys by simp_all
  have pw: "map_of (x # xs) k' = map_of (y # ys') k'" for k'
    using Cons.prems(3) [unfolded ys] by (rule fun_cong)
  have v: "snd x = snd y" using pw [of "fst x"] k(1) by simp
  have "map_of xs k' = map_of ys' k'" for k'
  proof (cases "k' = fst x")
    case True
    then have "k' \<notin> fst ` set xs" using Cons.prems(1) by simp
    moreover have "fst ` set xs = fst ` set ys'" using k(2) by (metis set_map)
    ultimately have "map_of xs k' = None" "map_of ys' k' = None"
      by (simp_all add: map_of_eq_None_iff)
    then show ?thesis by simp
  next
    case False
    show ?thesis using pw [of k'] False k(1) by simp
  qed
  then have "map_of xs = map_of ys'" by (rule ext)
  then have "xs = ys'" using Cons.IH Cons.prems(1) k(2) by simp
  then show ?case using ys k(1) v by (simp add: prod_eq_iff)
qed

lemma set_alist_update: "e \<in> set (AList.update k v al) \<Longrightarrow> e = (k, v) \<or> e \<in> set al"
  by (induction al) (auto split: if_splits)

text \<open>A map whose every post is stored under its own url.\<close>

lemma fold_update_keyed:
  assumes "\<And>p. bp_url (g p) = bp_url p"
    and "distinct (map fst m)" and "\<forall>e \<in> set m. bp_url (snd e) = fst e"
  shows "distinct (map fst (fold (\<lambda>p m. AList.update (bp_url p) (g p) m) ps m))
    \<and> (\<forall>e \<in> set (fold (\<lambda>p m. AList.update (bp_url p) (g p) m) ps m). bp_url (snd e) = fst e)"
  using assms(2,3)
proof (induction ps arbitrary: m)
  case Nil
  then show ?case by simp
next
  case (Cons p ps)
  have "distinct (map fst (AList.update (bp_url p) (g p) m))"
    using Cons.prems(1) by (simp add: distinct_update)
  moreover have "\<forall>e \<in> set (AList.update (bp_url p) (g p) m). bp_url (snd e) = fst e"
  proof
    fix e
    assume "e \<in> set (AList.update (bp_url p) (g p) m)"
    then have "e = (bp_url p, g p) \<or> e \<in> set m"
      by (rule set_alist_update)
    then show "bp_url (snd e) = fst e"
      using Cons.prems(2) assms(1) by auto
  qed
  ultimately show ?case using Cons.IH by simp
qed

lemma quick_map_keyed:
  "distinct (map fst (quickAudit calc posts (newPostMap posts)))
   \<and> (\<forall>e \<in> set (quickAudit calc posts (newPostMap posts)). bp_url (snd e) = fst e)"
proof -
  have 1: "distinct (map fst (newPostMap posts))
      \<and> (\<forall>e \<in> set (newPostMap posts). bp_url (snd e) = fst e)"
    unfolding newPostMap_def by (rule fold_update_keyed) simp_all
  show ?thesis
    unfolding quickAudit_def Let_def
    using 1 by (intro fold_update_keyed) simp_all
qed

lemma targets_urls:
  "map bp_url (audit_targets calc posts) = map fst (quickAudit calc posts (newPostMap posts))"
  using quick_map_keyed[of calc posts] by (simp add: audit_targets_def)

lemma targets_distinct: "distinct (map bp_url (audit_targets calc posts))"
  using quick_map_keyed[of calc posts] by (simp add: targets_urls)

text \<open>The map after the callbacks is the fold of their writes.\<close>

lemma postMap_fetchSettled:
  "postMap (fetchSettled calc fetch n post st) = mergeFetched calc fetch post (postMap st)"
  by (simp add: fetchSettled_def mergeFetched_def Let_def split: sum.splits)

lemma postMap_fold:
  "postMap (fold (fetchSettled calc fetch n) order st)
     = fold (mergeFetched calc fetch) order (postMap st)"
  by (induction order arbitrary: st) (simp_all add: postMap_fetchSettled)

lemma mergeFetched_keys:
  "bp_url post \<in> set (map fst m) \<Longrightarrow> map fst (mergeFetched calc fetch post m) = map fst m"
  by (simp add: mergeFetched_def Let_def update_keys split: sum.splits)

lemma fold_mergeFetched_keys:
  "\<forall>p \<in> set order. bp_url p \<in> set (map fst m) \<Longrightarrow>
   map fst (fold (mergeFetched calc fetch) order m) = map fst m"
proof (induction order arbitrary: m)
  case Nil
  then show ?case by simp
next
  case (Cons p ps)
  have "map fst (mergeFetched calc fetch p m) = map fst m"
    using Cons.prems by (simp add: mergeFetched_keys)
  then show ?case using Cons.IH[of "mergeFetched calc fetch p m"] Cons.prems by simp
qed

lemma map_of_mergeFetched:
  "map_of (mergeFetched calc fetch post m) = writeFetched calc fetch post (map_of m)"
  by (simp add: mergeFetched_def writeFetched_def Let_def update_conv' split: sum.splits)

lemma map_of_fold_mergeFetched:
  "map_of (fold (mergeFetched calc fetch) order m) = fold (writeFetched calc fetch) order (map_of m)"
  by (induction order arbitrary: m) (simp_all add: map_of_mergeFetched)

lemma writeFetched_commute:
  assumes "bp_url p \<noteq> bp_url q \<or> p = q"
  shows "writeFetched calc fetch p \<circ> writeFetched calc fetch q
       = writeFetched calc fetch q \<circ> writeFetched calc fetch p"
  using assms
  by (auto simp: writeFetched_def Let_def fun_eq_iff split: sum.splits)

lemma fold_mergeFetched_order:
  assumes d: "distinct (map fst m)" and keyed: "\<forall>e \<in> set m. bp_url (snd e) = fst e"
    and perm: "mset order = mset (map snd m)"
  shows "fold (mergeFetched calc fetch) order m = fold (mergeFetched calc fetch) (map snd m) m"
proof -
  have urls: "map bp_url (map snd m) = map fst m" using keyed by simp
  have set_eq: "set order = set (map snd m)" using perm by (metis set_mset_mset)
  have inj: "bp_url p \<noteq> bp_url q \<or> p = q" if "p \<in> set order" "q \<in> set order" for p q
  proof -
    have "inj_on bp_url (set (map snd m))"
      using d urls by (metis distinct_map)
    then show ?thesis using that set_eq by (auto dest: inj_onD)
  qed
  have present: "\<forall>p \<in> set xs. bp_url p \<in> set (map fst m)" if "set xs = set (map snd m)" for xs
    using that urls by (metis image_eqI list.set_map)
  have keys: "map fst (fold (mergeFetched calc fetch) order m)
      = map fst (fold (mergeFetched calc fetch) (map snd m) m)"
    using present[OF set_eq] present[OF refl] by (simp add: fold_mergeFetched_keys)
  have "fold (writeFetched calc fetch) order = fold (writeFetched calc fetch) (map snd m)"
    using inj perm by (intro fold_multiset_equiv writeFetched_commute) auto
  then have maps: "map_of (fold (mergeFetched calc fetch) order m)
      = map_of (fold (mergeFetched calc fetch) (map snd m) m)"
    by (simp add: map_of_fold_mergeFetched)
  have "distinct (map fst (fold (mergeFetched calc fetch) order m))"
    using present[OF set_eq] d by (simp add: fold_mergeFetched_keys)
  then show ?thesis using keys maps by (rule alist_ext)
qed

lemma scanner_result_order:
  assumes "mset order = mset (audit_targets calc posts)"
  shows "scanner_result (runDeepAudit_scanner calc fetch posts order)
       = scanner_result (runDeepAudit_scanner calc fetch posts (audit_targets calc posts))"
proof -
  let ?m0 = "quickAudit calc posts (newPostMap posts)"
  have "fold (mergeFetched calc fetch) order ?m0 = fold (mergeFetched calc fetch) (map snd ?m0) ?m0"
    using quick_map_keyed[of calc posts] assms
    by (intro fold_mergeFetched_order) (simp_all add: audit_targets_def)
  then show ?thesis
    by (simp add: scanner_result_def runDeepAudit_scanner_def Let_def postMap_fold audit_targets_def)
qed



text \<open>The batches of part\_000: the steps of one batch commute.\<close>

lemma processPost_settled_commute:
  "processPost_settled calc fetch n started i \<circ> processPost_settled calc fetch n started j
   = processPost_settled calc fetch n started j \<circ> processPost_settled calc fetch n started i"
proof (cases "i = j")
  case True
  then show ?thesis by simp
next
  case False
  then show ?thesis
    by (auto simp: processPost_settled_def Let_def fun_eq_iff list_update_swap split: sum.splits)
qed

lemma runBatch_arranged:
  assumes "arranges settling"
  shows "runBatch calc fetch n settling batch st = runBatch calc fetch n (\<lambda>b. b) batch st"
proof -
  have "mset (settling batch) = mset batch" using assms by (simp add: arranges_def)
  then have "fold (processPost_settled calc fetch n (updatedPosts st)) (settling batch)
      = fold (processPost_settled calc fetch n (updatedPosts st)) batch"
    by (intro fold_multiset_equiv processPost_settled_commute)
  then show ?thesis by (simp add: runBatch_def)
qed

lemma auditBatches_arranged:
  assumes "arranges settling"
  shows "auditBatches calc fetch n settling conc i st = auditBatches calc fetch n (\<lambda>b. b) conc i st"
  using assms
proof (induction calc fetch n settling conc i st rule: auditBatches.induct)
  case (1 calc fetch n settling conc i st)
  show ?case
  proof (cases "i < n \<and> 0 < conc")
    case False
    have "auditBatches calc fetch n settling conc i st = st"
      using False by (subst auditBatches.simps) auto
    moreover have "auditBatches calc fetch n (\<lambda>b. b) conc i st = st"
      using False by (subst auditBatches.simps) auto
    ultimately show ?thesis by simp
  next
    case True
    have "auditBatches calc fetch n settling conc i st
        = auditBatches calc fetch n settling conc (i + conc)
            (runBatch calc fetch n settling [i ..< min (i + conc) n] st)"
      using True by (subst auditBatches.simps) simp
    also have "\<dots> = auditBatches calc fetch n (\<lambda>b. b) conc (i + conc)
            (runBatch calc fetch n settling [i ..< min (i + conc) n] st)"
      using "1.IH" True "1.prems" by simp
    also have "\<dots> = auditBatches calc fetch n (\<lambda>b. b) conc (i + conc)
            (runBatch calc fetch n (\<lambda>b. b) [i ..< min (i + conc) n] st)"
      using runBatch_arranged[OF "1.prems"] by simp
    also have "\<dots> = auditBatches calc fetch n (\<lambda>b. b) conc i st"
      using True by (subst (2) auditBatches.simps) simp
    finally show ?thesis .
  qed
qed





text \<open>
  Claim C5. The targets of an audit have pairwise different urls, so every key of the
  merge has one writer, and the final merged posts are the same for any two orders in which
  the fetches settle: in the scanner that merges under the url, for any two arrangements
  of the targets; in the scanner that merges under the index, for any two ways of
  arranging each batch (there the whole final state is the same).
\<close>

theorem audit_order_independent:
  "distinct (map bp_url (audit_targets calc posts))
   \<and> (mset order1 = mset (audit_targets calc posts) \<and> mset order2 = mset (audit_targets calc posts)
      \<longrightarrow> scanner_result (runDeepAudit_scanner calc fetch posts order1)
          = scanner_result (runDeepAudit_scanner calc fetch posts order2))
   \<and> (arranges settling1 \<and> arranges settling2
      \<longrightarrow> runDeepAudit_batches calc fetch limit settling1 posts
          = runDeepAudit_batches calc fetch limit settling2 posts)"
proof (intro conjI impI)
  show "distinct (map bp_url (audit_targets calc posts))" by (rule targets_distinct)
next
  assume "mset order1 = mset (audit_targets calc posts) \<and> mset order2 = mset (audit_targets calc posts)"
  then show "scanner_result (runDeepAudit_scanner calc fetch posts order1)
          = scanner_result (runDeepAudit_scanner calc fetch posts order2)"
    using scanner_result_order[of order1 calc posts fetch] scanner_result_order[of order2 calc posts fetch]
    by simp
next
  assume "arranges settling1 \<and> arranges settling2"
  then show "runDeepAudit_batches calc fetch limit settling1 posts
          = runDeepAudit_batches calc fetch limit settling2 posts"
    using auditBatches_arranged[of settling1] auditBatches_arranged[of settling2]
    by (simp add: runDeepAudit_batches_def)
qed

theorem audit_order_independent_witness:
  "mset (rev (audit_targets sample_calc sample_posts)) = mset (audit_targets sample_calc sample_posts)
   \<and> arranges rev \<and> arranges (\<lambda>b. b)
   \<and> map bp_url (audit_targets sample_calc sample_posts) = [''/a'', ''/b'', ''/c'']
   \<and> scanner_result (runDeepAudit_scanner sample_calc sample_fetch sample_posts
         (rev (audit_targets sample_calc sample_posts)))
     = scanner_result (runDeepAudit_scanner sample_calc sample_fetch sample_posts
         (audit_targets sample_calc sample_posts))
   \<and> map bp_priority (scanner_result (runDeepAudit_scanner sample_calc sample_fetch sample_posts
         (audit_targets sample_calc sample_posts))) = [high, medium, high]
   \<and> runDeepAudit_batches sample_calc sample_fetch (Some 2) rev sample_posts
     = runDeepAudit_batches sample_calc sample_fetch (Some 2) (\<lambda>b. b) sample_posts
   \<and> map_option (map bp_priority \<circ> updatedPosts)
        (runDeepAudit_batches sample_calc sample_fetch (Some 2) (\<lambda>b. b) sample_posts)
     = Some [high, low, high]"
proof -
  have p1: "mset (rev (audit_targets sample_calc sample_posts)) = mset (audit_targets sample_calc sample_posts)"
    by simp
  have p2: "mset (audit_targets sample_calc sample_posts) = mset (audit_targets sample_calc sample_posts)"
    by simp
  have a1: "arranges rev" and a2: "arranges (\<lambda>b. b)" by (simp_all add: arranges_def)
  note ind = audit_order_independent
    [of sample_calc sample_posts "rev (audit_targets sample_calc sample_posts)"
        "audit_targets sample_calc sample_posts" sample_fetch rev "\<lambda>b. b" "Some 2"]
  have s: "scanner_result (runDeepAudit_scanner sample_calc sample_fetch sample_posts
         (rev (audit_targets sample_calc sample_posts)))
     = scanner_result (runDeepAudit_scanner sample_calc sample_fetch sample_posts
         (audit_targets sample_calc sample_posts))"
    using ind p1 p2 by blast
  have b: "runDeepAudit_batches sample_calc sample_fetch (Some 2) rev sample_posts
     = runDeepAudit_batches sample_calc sample_fetch (Some 2) (\<lambda>b. b) sample_posts"
    using ind a1 a2 by blast
  have ev: "map bp_url (audit_targets sample_calc sample_posts) = [''/a'', ''/b'', ''/c'']
   \<and> map bp_priority (scanner_result (runDeepAudit_scanner sample_calc sample_fetch sample_posts
         (audit_targets sample_calc sample_posts))) = [high, medium, high]
   \<and> map_option (map bp_priority \<circ> updatedPosts)
        (runDeepAudit_batches sample_calc sample_fetch (Some 2) (\<lambda>b. b) sample_posts)
     = Some [high, low, high]"
    by code_simp
  from p1 a1 a2 s b ev show ?thesis by blast
qed




end
